(* ===== verification/Prelude.thy ===== *)
theory Prelude
  imports Main "HOL-Library.Word" "HOL-Library.Sublist"
begin

unbundle bit_operations_syntax

text \<open>
  Shared vocabulary of the development: machine integers and byte strings, the error values of
  \<^verbatim>\<open>src/src/error.rs\<close>, the combinators in which every fallible, stateful operation is
  written, and the generic lemmas the component theories rely on.

  Conventions.
  \<^item> Rust's \<open>u8\<close>, \<open>u32\<close>, \<open>u64\<close> are words of that width; \<open>usize\<close> values count bytes held in
    memory and are \<open>nat\<close>.
  \<^item> A Rust \<open>&str\<close> or \<open>String\<close> is its UTF-8 byte sequence (type \<open>rstr\<close>), as it is in memory and
    on the wire; \<open>lit\<close> gives the bytes of an ASCII literal.
  \<^item> A method taking \<open>&mut self\<close> and returning \<open>Result\<close> is an action: a function from the state
    to a result and the new state. The state of an action that fails is the state at the point
    of failure, as in Rust, where the mutations done before an early return persist.
  \<^item> A panic is the error value \<open>Panic\<close>, which no Rust \<open>Err\<close> is mapped to. An \<open>unwrap\<close>, an index and a
    slice of the connection, the channels, the parser and the session are written with the
    partial operations below, which return it out of range. Integer arithmetic is that of a
    release build: it wraps where the source does not check it.
\<close>

section \<open>Machine integers and byte strings\<close>

type_synonym byte = "8 word"
type_synonym u32 = "32 word"
type_synonym u64 = "64 word"
type_synonym bytes = "byte list"
type_synonym rstr = "byte list"

named_theorems lit_simps \<open>definitions of byte-string constants\<close>
named_theorems act_defs \<open>definitions of the action combinators\<close>
named_theorems np_intro \<open>compositional rules for actions that never panic\<close>
named_theorems safe_intro \<open>compositional rules for actions that keep an invariant and never panic under it\<close>
named_theorems keeps_intro \<open>compositional rules for relations kept by actions\<close>

definition lit :: "string \<Rightarrow> rstr" where
  "lit s = map of_char s"

lemma length_lit [simp]: "length (lit s) = length s"
  by (simp add: lit_def)

lemma lit_Nil [simp]: "lit [] = []"
  by (simp add: lit_def)

lemma lit_Cons: "lit (c # s) = of_char c # lit s"
  by (simp add: lit_def)

lemmas [lit_simps] = lit_def

text \<open>\<open>u32::saturating_sub\<close> and \<open>u32::saturating_add\<close>.\<close>

definition sat_sub_u32 :: "u32 \<Rightarrow> u32 \<Rightarrow> u32" where
  "sat_sub_u32 a b = (if a < b then 0 else a - b)"

definition sat_add_u32 :: "u32 \<Rightarrow> u32 \<Rightarrow> u32" where
  "sat_add_u32 a b = (if unat a + unat b < 2 ^ 32 then a + b else - 1)"

lemma unat_minus_one_u32 [simp]: "unat (- 1 :: u32) = 2 ^ 32 - 1"
  by (simp add: unsigned_minus_1_eq_mask mask_eq_exp_minus_1)

lemma unat_u32_bound: "unat (w :: u32) < 4294967296"
  using unsigned_less [of w] by simp

lemma unat_sat_sub_u32: "unat (sat_sub_u32 a b) = unat a - unat b"
  by (simp add: sat_sub_u32_def unat_sub word_less_nat_alt word_le_nat_alt not_less)

lemma unat_sat_add_u32: "unat (sat_add_u32 a b) = min (unat a + unat b) (2 ^ 32 - 1)"
  using unat_u32_bound [of a] unat_u32_bound [of b]
  by (auto simp: sat_add_u32_def unat_word_ariths)

lemma unat_of_nat_u32: "n < 2 ^ 32 \<Longrightarrow> unat (of_nat n :: u32) = n"
  by (simp add: unat_of_nat take_bit_nat_eq_self)

lemma unat_of_nat_u32_le: "unat (of_nat n :: u32) \<le> n"
  by (simp add: unat_of_nat take_bit_nat_less_eq_self)

lemma unat_sub_u32: "b \<le> a \<Longrightarrow> unat (a - b :: u32) = unat a - unat b"
  by (simp add: unat_sub)

section \<open>Error values\<close>

text \<open>
  \<^verbatim>\<open>enum Error\<close> of \<^verbatim>\<open>error.rs\<close>. An \<open>io::Error\<close> is its kind, as far as the code looks at it, and
  its \<open>Display\<close> text. \<open>Protocol\<close> carries the literal of the source as a HOL string. \<open>Panic\<close> is
  not a constructor of the Rust type: it marks the runs that would panic.
\<close>

datatype io_kind = WouldBlock | OtherKind

datatype error =
    Io io_kind rstr
  | Protocol string
  | ProtocolFmt rstr
  | Crypto string
  | Auth
  | Disconnect u32 rstr
  | Closed
  | TimedOut
  | Panic

type_synonym 'a result = "error + 'a"

section \<open>Actions: state, result and early return\<close>

type_synonym ('s, 'a) act = "'s \<Rightarrow> 'a result \<times> 's"

definition ret :: "'a \<Rightarrow> ('s, 'a) act" where
  "ret x s = (Inr x, s)"

definition fail :: "error \<Rightarrow> ('s, 'a) act" where
  "fail e s = (Inl e, s)"

definition bindE :: "('s, 'a) act \<Rightarrow> ('a \<Rightarrow> ('s, 'b) act) \<Rightarrow> ('s, 'b) act" where
  "bindE m f s = (case m s of (Inl e, t) \<Rightarrow> (Inl e, t) | (Inr x, t) \<Rightarrow> f x t)"

definition modify :: "('s \<Rightarrow> 's) \<Rightarrow> ('s, unit) act" where
  "modify f s = (Inr (), f s)"

definition gets :: "('s \<Rightarrow> 'a) \<Rightarrow> ('s, 'a) act" where
  "gets f s = (Inr (f s), s)"

text \<open>\<open>withS f\<close> reads the whole state before going on: \<open>self.field\<close> in an expression.\<close>

definition withS :: "('s \<Rightarrow> ('s, 'a) act) \<Rightarrow> ('s, 'a) act" where
  "withS f s = f s s"

text \<open>
  \<open>let _ = m;\<close> drops a returned error, not a panic. Then the \<open>?\<close> operator on a pure \<open>Result\<close> and
  on \<open>Option::ok_or(e)\<close>; \<open>unwrap\<close> is \<open>ok_or Panic\<close>.
\<close>

definition ignore :: "('s, 'a) act \<Rightarrow> ('s, unit) act" where
  "ignore m s = (case m s of (Inl Panic, t) \<Rightarrow> (Inl Panic, t) | (_, t) \<Rightarrow> (Inr (), t))"

definition tryR :: "'a result \<Rightarrow> ('s, 'a) act" where
  "tryR r s = (r, s)"

definition ok_or :: "error \<Rightarrow> 'a option \<Rightarrow> 'a result" where
  "ok_or e x = (case x of None \<Rightarrow> Inl e | Some v \<Rightarrow> Inr v)"

abbreviation unwrap :: "'a option \<Rightarrow> 'a result" where
  "unwrap \<equiv> ok_or Panic"

definition bindR :: "'a result \<Rightarrow> ('a \<Rightarrow> 'b result) \<Rightarrow> 'b result" where
  "bindR r f = (case r of Inl e \<Rightarrow> Inl e | Inr x \<Rightarrow> f x)"

text \<open>
  The partial operations on sequences: \<open>xs[i]\<close>, \<open>xs[a..b]\<close>, \<open>xs.split_at(n)\<close> (also \<open>split_to\<close> and
  \<open>split_off\<close>) and \<open>xs.pop_front().unwrap()\<close>.
\<close>

definition index :: "'a list \<Rightarrow> nat \<Rightarrow> 'a result" where
  "index xs i = (if i < length xs then Inr (xs ! i) else Inl Panic)"

definition slice :: "nat \<Rightarrow> nat \<Rightarrow> 'a list \<Rightarrow> 'a list result" where
  "slice a b xs = (if a \<le> b \<and> b \<le> length xs then Inr (take (b - a) (drop a xs)) else Inl Panic)"

definition split_at :: "nat \<Rightarrow> 'a list \<Rightarrow> ('a list \<times> 'a list) result" where
  "split_at n xs = (if n \<le> length xs then Inr (take n xs, drop n xs) else Inl Panic)"

definition pop_front :: "'a list \<Rightarrow> ('a \<times> 'a list) result" where
  "pop_front xs = (case xs of [] \<Rightarrow> Inl Panic | x # q \<Rightarrow> Inr (x, q))"

lemma bindR_simps [simp]: "bindR (Inl e) f = Inl e" "bindR (Inr x) f = f x"
  by (simp_all add: bindR_def)

lemma index_ok [simp]: "i < length xs \<Longrightarrow> index xs i = Inr (xs ! i)"
  by (simp add: index_def)

lemma slice_ok [simp]: "a \<le> b \<Longrightarrow> b \<le> length xs \<Longrightarrow> slice a b xs = Inr (take (b - a) (drop a xs))"
  by (simp add: slice_def)

lemma split_at_ok [simp]: "n \<le> length xs \<Longrightarrow> split_at n xs = Inr (take n xs, drop n xs)"
  by (simp add: split_at_def)

lemma pop_front_Cons [simp]: "pop_front (x # q) = Inr (x, q)"
  by (simp add: pop_front_def)

lemma ok_or_Some [simp]: "ok_or e (Some x) = Inr x"
  by (simp add: ok_or_def)

text \<open>A \<open>for\<close> loop over a list computed before the loop starts.\<close>

primrec for_each :: "'a list \<Rightarrow> ('a \<Rightarrow> ('s, unit) act) \<Rightarrow> ('s, unit) act" where
  "for_each [] f = ret ()"
| "for_each (x # xs) f = bindE (f x) (\<lambda>_. for_each xs f)"

text \<open>
  A handler that reads a value \<open>p\<close> of another state type (the wire parser) while it updates its
  own state: \<open>useE m p f\<close> is \<open>let x = p.m()?;\<close> and \<open>useOr m d p f\<close> is
  \<open>let x = p.m().unwrap_or(d);\<close>, both going on with the advanced \<open>p\<close>.
\<close>

definition useE :: "('p, 'a) act \<Rightarrow> 'p \<Rightarrow> ('a \<Rightarrow> 'p \<Rightarrow> ('s, 'b) act) \<Rightarrow> ('s, 'b) act" where
  "useE m p f s = (case m p of (Inl e, _) \<Rightarrow> (Inl e, s) | (Inr x, q) \<Rightarrow> f x q s)"

definition useOr :: "('p, 'a) act \<Rightarrow> 'a \<Rightarrow> 'p \<Rightarrow> ('a \<Rightarrow> 'p \<Rightarrow> ('s, 'b) act) \<Rightarrow> ('s, 'b) act" where
  "useOr m d p f s = (case m p of (Inl e, q) \<Rightarrow> f d q s | (Inr x, q) \<Rightarrow> f x q s)"

lemmas [act_defs] = ret_def fail_def bindE_def modify_def gets_def withS_def ignore_def tryR_def
  ok_or_def useE_def useOr_def

lemma bindE_cong [fundef_cong]:
  assumes "m s = m' s'" and "\<And>x t. m' s' = (Inr x, t) \<Longrightarrow> f x t = f' x t"
  shows "bindE m f s = bindE m' f' s'"
  using assms by (auto simp: bindE_def split: prod.splits sum.splits)

lemma withS_cong [fundef_cong]: "s = s' \<Longrightarrow> f s' s' = f' s' s' \<Longrightarrow> withS f s = withS f' s'"
  by (simp add: withS_def)

lemma bindE_ret [simp]: "bindE (ret x) f = f x"
  by (rule ext) (simp add: bindE_def ret_def)

lemma bindE_fail [simp]: "bindE (fail e) f = fail e"
  by (rule ext) (simp add: bindE_def fail_def)

lemma bindE_modify: "bindE (modify f) g s = g () (f s)"
  by (simp add: bindE_def modify_def)

lemma bindE_tryR: "bindE (tryR (Inl e)) g s = (Inl e, s)" "bindE (tryR (Inr x)) f s = f x s"
  by (simp_all add: bindE_def tryR_def)

lemma bindE_assoc: "bindE (bindE m f) g = bindE m (\<lambda>x. bindE (f x) g)"
  by (rule ext) (auto simp: bindE_def split: prod.splits sum.splits)

lemma bindE_Inr:
  "bindE m f s = (Inr y, t) \<longleftrightarrow> (\<exists>x u. m s = (Inr x, u) \<and> f x u = (Inr y, t))"
  by (auto simp: bindE_def split: prod.splits sum.splits)

lemma bindE_tryR_Inr [simp]: "bindE (tryR (Inr x)) f = f x"
  by (rule ext) (simp add: bindE_tryR)

lemma index_first: "p \<noteq> [] \<Longrightarrow> bindE (tryR (index p 0)) f = f (p ! 0)"
  by simp

lemma snd_ignore [simp]: "snd (ignore m s) = snd (m s)"
  by (simp add: ignore_def split: prod.splits sum.splits error.splits)

lemma ignore_eq: "ignore m s = (if fst (m s) = Inl Panic then Inl Panic else Inr (), snd (m s))"
  by (auto simp: ignore_def split: prod.splits sum.splits error.splits)

lemma ignore_calm: "fst (m s) \<noteq> Inl Panic \<Longrightarrow> ignore m s = (Inr (), snd (m s))"
  by (auto simp: ignore_def split: prod.splits sum.splits error.splits)

lemma bindE_ok: "m s = (Inr x, t) \<Longrightarrow> bindE m f s = f x t"
  by (simp add: bindE_def)

text \<open>A run that changed the state got past the reads.\<close>

lemma useE_changed:
  assumes "useE m p f s = (r, t)" and "t \<noteq> s"
  obtains x q where "m p = (Inr x, q)" and "f x q s = (r, t)"
  using assms by (auto simp: useE_def split: prod.splits sum.splits)

subsection \<open>Relations between the state before and after an action\<close>

text \<open>
  \<open>ensures R m\<close>: whatever the action returns, the states before and after it are related by
  \<open>R\<close>. For a preorder \<open>R\<close> the predicate is compositional, and an invariant \<open>I\<close> is the preorder
  \<open>\<lambda>s t. I s \<longrightarrow> I t\<close>.
\<close>

definition ensures :: "('s \<Rightarrow> 's \<Rightarrow> bool) \<Rightarrow> ('s, 'a) act \<Rightarrow> bool" where
  "ensures R m \<longleftrightarrow> (\<forall>s. R s (snd (m s)))"

lemma ensuresD: "ensures R m \<Longrightarrow> m s = (r, t) \<Longrightarrow> R s t"
  unfolding ensures_def by (metis snd_conv)

lemma ensures_sndD: "ensures R m \<Longrightarrow> R s (snd (m s))"
  by (simp add: ensures_def)

lemma ensures_gen: "(\<And>s. R s (snd (m s))) \<Longrightarrow> ensures R m"
  by (simp add: ensures_def)

locale act_preorder =
  fixes R :: "'s \<Rightarrow> 's \<Rightarrow> bool"
  assumes R_refl: "R s s"
    and R_trans: "R s t \<Longrightarrow> R t u \<Longrightarrow> R s u"
begin

lemma ens_ret [keeps_intro]: "ensures R (ret x)"
  by (simp add: ensures_def ret_def R_refl)

lemma ens_fail [keeps_intro]: "ensures R (fail e)"
  by (simp add: ensures_def fail_def R_refl)

lemma ens_gets [keeps_intro]: "ensures R (gets f)"
  by (simp add: ensures_def gets_def R_refl)

lemma ens_tryR [keeps_intro]: "ensures R (tryR r)"
  by (simp add: ensures_def tryR_def R_refl)

lemma ens_bindE [keeps_intro]:
  assumes "ensures R m" and "\<And>x. ensures R (f x)"
  shows "ensures R (bindE m f)"
proof (rule ensures_gen)
  fix s
  obtain r t where m: "m s = (r, t)" by (cases "m s")
  then have st: "R s t" using assms(1) by (rule ensuresD [rotated])
  show "R s (snd (bindE m f s))"
  proof (cases r)
    case (Inl e)
    with m st show ?thesis by (simp add: bindE_def)
  next
    case (Inr x)
    with m have "snd (bindE m f s) = snd (f x t)" by (simp add: bindE_def)
    moreover have "R t (snd (f x t))" using assms(2) by (rule ensures_sndD)
    ultimately show ?thesis using st R_trans by metis
  qed
qed

lemma ens_modify: "(\<And>s. R s (f s)) \<Longrightarrow> ensures R (modify f)"
  by (simp add: ensures_def modify_def)

lemma ens_ignore [keeps_intro]: "ensures R m \<Longrightarrow> ensures R (ignore m)"
  by (simp add: ensures_def)

lemma ens_useE [keeps_intro]: "(\<And>x q. ensures R (f x q)) \<Longrightarrow> ensures R (useE m p f)"
  by (auto simp: ensures_def useE_def R_refl split: prod.splits sum.splits)

lemma ens_useOr [keeps_intro]: "(\<And>x q. ensures R (f x q)) \<Longrightarrow> ensures R (useOr m d p f)"
  by (auto simp: ensures_def useOr_def split: prod.splits sum.splits)

lemma ens_withS: "(\<And>s. R s (snd (f s s))) \<Longrightarrow> ensures R (withS f)"
  by (simp add: ensures_def withS_def)

lemma ens_withS_all [keeps_intro]: "(\<And>s. ensures R (f s)) \<Longrightarrow> ensures R (withS f)"
  by (simp add: ensures_def withS_def)

lemma ens_useE_dep:
  "(\<And>x q. m p = (Inr x, q) \<Longrightarrow> ensures R (f x q)) \<Longrightarrow> ensures R (useE m p f)"
  by (auto simp: ensures_def useE_def R_refl split: prod.splits sum.splits)

text \<open>From one state, for the steps that rely on what the state before them is.\<close>

lemma at_bindE:
  assumes "R s (snd (m s))" and "\<And>x. ensures R (f x)"
  shows "R s (snd (bindE m f s))"
proof -
  have "R (snd (m s)) (snd (f x (snd (m s))))" for x using assms(2) by (rule ensures_sndD)
  then show ?thesis using assms(1) R_trans
    by (fastforce simp: bindE_def split: prod.splits sum.splits)
qed

lemma at_withS: "(\<And>t. ensures R (f t)) \<Longrightarrow> R s (snd (withS f s))"
  by (simp add: withS_def ensures_def)

lemma at_tryR: "(\<And>x. r = Inr x \<Longrightarrow> R s (snd (f x s))) \<Longrightarrow> R s (snd (bindE (tryR r) f s))"
  by (cases r) (simp_all add: bindE_def tryR_def R_refl)

lemma at_if: "(b \<Longrightarrow> R s (snd (m s))) \<Longrightarrow> (\<not> b \<Longrightarrow> R s (snd (n s))) \<Longrightarrow> R s (snd ((if b then m else n) s))"
  by simp

lemma at_fail: "R s (snd (fail e s))"
  by (simp add: fail_def R_refl)

lemma at_ens: "ensures R m \<Longrightarrow> R s (snd (m s))"
  by (rule ensures_sndD)

lemma at_useE: "(\<And>x q. R s (snd (f x q s))) \<Longrightarrow> R s (snd (useE m p f s))"
  by (simp add: useE_def R_refl split: prod.splits sum.splits)

lemma at_ignore: "R s (snd (m s)) \<Longrightarrow> R s (snd (ignore m s))"
  by simp

lemma ens_if [keeps_intro]:
  "(b \<Longrightarrow> ensures R m) \<Longrightarrow> (\<not> b \<Longrightarrow> ensures R n) \<Longrightarrow> ensures R (if b then m else n)"
  by simp

lemma ens_option [keeps_intro]:
  "(x = None \<Longrightarrow> ensures R m) \<Longrightarrow> (\<And>y. x = Some y \<Longrightarrow> ensures R (f y)) \<Longrightarrow>
   ensures R (case x of None \<Rightarrow> m | Some y \<Rightarrow> f y)"
  by (cases x) simp_all

lemma ens_sum [keeps_intro]:
  "(\<And>y. x = Inl y \<Longrightarrow> ensures R (f y)) \<Longrightarrow> (\<And>y. x = Inr y \<Longrightarrow> ensures R (g y)) \<Longrightarrow>
   ensures R (case x of Inl y \<Rightarrow> f y | Inr y \<Rightarrow> g y)"
  by (cases x) simp_all

lemma ens_prod [keeps_intro]:
  "(\<And>a b. x = (a, b) \<Longrightarrow> ensures R (f a b)) \<Longrightarrow> ensures R (case x of (a, b) \<Rightarrow> f a b)"
  by (cases x) simp

lemma ens_let [keeps_intro]: "(\<And>y. y = x \<Longrightarrow> ensures R (f y)) \<Longrightarrow> ensures R (let y = x in f y)"
  by simp

lemma ens_for_each [keeps_intro]: "(\<And>x. ensures R (f x)) \<Longrightarrow> ensures R (for_each xs f)"
  by (induction xs) (auto intro!: ens_ret ens_bindE)

end

subsection \<open>Actions that never panic\<close>

definition never_panics :: "('s, 'a) act \<Rightarrow> bool" where
  "never_panics m \<longleftrightarrow> (\<forall>s. fst (m s) \<noteq> Inl Panic)"

text \<open>\<open>calm s m\<close>: the action does not panic from the state \<open>s\<close>.\<close>

definition calm :: "'s \<Rightarrow> ('s, 'a) act \<Rightarrow> bool" where
  "calm s m \<longleftrightarrow> fst (m s) \<noteq> Inl Panic"

lemma never_panics_calm: "never_panics m \<longleftrightarrow> (\<forall>s. calm s m)"
  by (simp add: never_panics_def calm_def)

lemma calm_np: "never_panics m \<Longrightarrow> calm s m"
  by (simp add: never_panics_calm)

lemma never_panics_gen: "(\<And>s. calm s m) \<Longrightarrow> never_panics m"
  by (simp add: never_panics_calm)

lemma calm_bindE:
  assumes "calm s m" and "\<And>x t. m s = (Inr x, t) \<Longrightarrow> calm t (f x)"
  shows "calm s (bindE m f)"
  using assms by (auto simp: bindE_def calm_def split: prod.splits sum.splits)

lemma calm_useE:
  assumes "never_panics m" and "\<And>x q. m p = (Inr x, q) \<Longrightarrow> calm s (f x q)"
  shows "calm s (useE m p f)"
  using calm_np [OF assms(1), of p] assms(2) by (auto simp: useE_def calm_def split: prod.splits sum.splits)

lemma calm_withS: "calm s (f s) \<Longrightarrow> calm s (withS f)"
  by (simp add: calm_def withS_def)

lemma calm_if: "(b \<Longrightarrow> calm s m) \<Longrightarrow> (\<not> b \<Longrightarrow> calm s n) \<Longrightarrow> calm s (if b then m else n)"
  by simp

lemma calm_tryR:
  assumes "r \<noteq> Inl Panic" and "\<And>x. r = Inr x \<Longrightarrow> calm s (f x)"
  shows "calm s (bindE (tryR r) f)"
  using assms by (cases r) (simp_all add: calm_def bindE_tryR)

lemma calm_modify: "calm (g s) (f ()) \<Longrightarrow> calm s (bindE (modify g) f)"
  by (simp add: calm_def bindE_modify)

lemma ok_or_no_panic: "e \<noteq> Panic \<or> x \<noteq> None \<Longrightarrow> ok_or e x \<noteq> Inl Panic"
  by (auto simp: ok_or_def split: option.splits)

lemma np_bindE [np_intro]:
  "never_panics m \<Longrightarrow> (\<And>x. never_panics (f x)) \<Longrightarrow> never_panics (bindE m f)"
  by (intro never_panics_gen calm_bindE) (simp_all add: never_panics_calm)

lemma np_useE [np_intro]:
  "never_panics m \<Longrightarrow> (\<And>x q. never_panics (f x q)) \<Longrightarrow> never_panics (useE m p f)"
  by (intro never_panics_gen calm_useE) (simp_all add: never_panics_calm)

lemma np_useOr [np_intro]: "(\<And>x q. never_panics (f x q)) \<Longrightarrow> never_panics (useOr m d p f)"
  by (auto simp: never_panics_def useOr_def split: prod.splits sum.splits)

lemma np_basic [np_intro]:
  "never_panics (ret x)" "never_panics (modify g)" "never_panics (gets h)"
  by (simp_all add: never_panics_def ret_def modify_def gets_def)

lemma np_ignore [np_intro]: "never_panics m \<Longrightarrow> never_panics (ignore m)"
  by (simp add: never_panics_def ignore_calm)

lemma np_fail: "e \<noteq> Panic \<Longrightarrow> never_panics (fail e)"
  by (simp add: never_panics_def fail_def)

lemma np_tryR: "r \<noteq> Inl Panic \<Longrightarrow> never_panics (tryR r)"
  by (simp add: never_panics_def tryR_def)

lemma np_ok_or: "e \<noteq> Panic \<or> x \<noteq> None \<Longrightarrow> never_panics (tryR (ok_or e x))"
  by (auto simp: never_panics_def tryR_def ok_or_def split: option.splits)

lemma np_withS [np_intro]: "(\<And>s. never_panics (f s)) \<Longrightarrow> never_panics (withS f)"
  by (simp add: never_panics_def withS_def)

lemma np_if [np_intro]:
  "(b \<Longrightarrow> never_panics m) \<Longrightarrow> (\<not> b \<Longrightarrow> never_panics n) \<Longrightarrow> never_panics (if b then m else n)"
  by simp

lemma np_option [np_intro]:
  "(x = None \<Longrightarrow> never_panics m) \<Longrightarrow> (\<And>y. x = Some y \<Longrightarrow> never_panics (f y)) \<Longrightarrow>
   never_panics (case x of None \<Rightarrow> m | Some y \<Rightarrow> f y)"
  by (cases x) simp_all

lemma np_prod [np_intro]: "(\<And>a b. never_panics (f a b)) \<Longrightarrow> never_panics (case x of (a, b) \<Rightarrow> f a b)"
  by (cases x) simp

lemma np_for_each [np_intro]: "(\<And>x. never_panics (f x)) \<Longrightarrow> never_panics (for_each xs f)"
  by (induction xs) (auto intro!: np_basic np_bindE)

subsection \<open>Actions that keep an invariant and do not panic under it\<close>

definition safely :: "('s \<Rightarrow> bool) \<Rightarrow> ('s, 'a) act \<Rightarrow> bool" where
  "safely I m \<longleftrightarrow> (\<forall>s. I s \<longrightarrow> I (snd (m s)) \<and> fst (m s) \<noteq> Inl Panic)"

lemma safelyD: "safely I m \<Longrightarrow> I s \<Longrightarrow> m s = (r, t) \<Longrightarrow> I t \<and> r \<noteq> Inl Panic"
  unfolding safely_def by (metis fst_conv snd_conv)

lemma safely_gen: "(\<And>s r t. I s \<Longrightarrow> m s = (r, t) \<Longrightarrow> I t \<and> r \<noteq> Inl Panic) \<Longrightarrow> safely I m"
  unfolding safely_def by (metis prod.collapse)

lemma safe_bindE [safe_intro]:
  assumes "safely I m" and "\<And>x. safely I (f x)"
  shows "safely I (bindE m f)"
proof (rule safely_gen)
  fix s r t
  assume s: "I s" and run: "bindE m f s = (r, t)"
  obtain q u where m: "m s = (q, u)" by fastforce
  have u: "I u" "q \<noteq> Inl Panic" using safelyD [OF assms(1) s m] by simp_all
  show "I t \<and> r \<noteq> Inl Panic"
  proof (cases q)
    case (Inl e)
    with u run m show ?thesis by (auto simp: bindE_def)
  next
    case (Inr x)
    with run m have "f x u = (r, t)" by (simp add: bindE_def)
    with safelyD [OF assms(2) u(1)] show ?thesis by blast
  qed
qed

lemma safe_basic [safe_intro]: "safely I (ret x)" "safely I (gets g)"
  by (simp_all add: safely_def ret_def gets_def)

lemma safe_fail: "e \<noteq> Panic \<Longrightarrow> safely I (fail e)"
  by (simp add: safely_def fail_def)

lemma safe_modify: "(\<And>s. I s \<Longrightarrow> I (g s)) \<Longrightarrow> safely I (modify g)"
  by (simp add: safely_def modify_def)

lemma safe_withS [safe_intro]: "(\<And>s. safely I (f s)) \<Longrightarrow> safely I (withS f)"
  by (simp add: safely_def withS_def)

lemma safe_if [safe_intro]:
  "(b \<Longrightarrow> safely I m) \<Longrightarrow> (\<not> b \<Longrightarrow> safely I n) \<Longrightarrow> safely I (if b then m else n)"
  by simp

lemma safe_option [safe_intro]:
  "(x = None \<Longrightarrow> safely I m) \<Longrightarrow> (\<And>y. x = Some y \<Longrightarrow> safely I (f y)) \<Longrightarrow>
   safely I (case x of None \<Rightarrow> m | Some y \<Rightarrow> f y)"
  by (cases x) simp_all

lemma safe_prod [safe_intro]: "(\<And>a b. safely I (f a b)) \<Longrightarrow> safely I (case x of (a, b) \<Rightarrow> f a b)"
  by (cases x) simp

lemma safe_for_each [safe_intro]: "(\<And>x. safely I (f x)) \<Longrightarrow> safely I (for_each xs f)"
  by (induction xs) (auto intro!: safe_basic safe_bindE)

text \<open>Every relation of the form \<open>I s \<longrightarrow> I t\<close>, and every frame \<open>f t = f s\<close>, is a preorder.\<close>

lemma act_preorder_inv: "act_preorder (\<lambda>s t. I s \<longrightarrow> I t)"
  by unfold_locales auto

lemma act_preorder_frame: "act_preorder (\<lambda>s t. f t = f s)"
  by unfold_locales auto

section \<open>Lists\<close>

lemma take_length_append [simp]: "n = length xs \<Longrightarrow> take n (xs @ ys) = xs"
  by simp

lemma drop_length_append [simp]: "n = length xs \<Longrightarrow> drop n (xs @ ys) = ys"
  by simp

lemma find_split_Some:
  "find P xs = Some x \<longleftrightarrow> (\<exists>ys zs. xs = ys @ x # zs \<and> P x \<and> (\<forall>y \<in> set ys. \<not> P y))"
proof
  assume "find P xs = Some x"
  then obtain i where i: "i < length xs" "P (xs ! i)" "x = xs ! i" "\<forall>j < i. \<not> P (xs ! j)"
    by (auto simp: find_Some_iff)
  then have "xs = take i xs @ x # drop (Suc i) xs" by (simp add: id_take_nth_drop)
  moreover have "\<forall>y \<in> set (take i xs). \<not> P y" using i by (auto simp: in_set_conv_nth)
  ultimately show "\<exists>ys zs. xs = ys @ x # zs \<and> P x \<and> (\<forall>y \<in> set ys. \<not> P y)" using i by blast
next
  have "find P (ys @ x # zs) = Some x" if "P x" and "\<forall>y \<in> set ys. \<not> P y" for ys zs
    using that by (induction ys) auto
  then show "\<exists>ys zs. xs = ys @ x # zs \<and> P x \<and> (\<forall>y \<in> set ys. \<not> P y) \<Longrightarrow> find P xs = Some x"
    by blast
qed

lemma sum_list_map_upd:
  fixes f :: "'a \<Rightarrow> nat"
  assumes "i < length xs"
  shows "sum_list (map f (xs[i := y])) + f (xs ! i) = sum_list (map f xs) + f y"
  using assms
proof (induction xs arbitrary: i)
  case Nil
  then show ?case by simp
next
  case (Cons x xs)
  then show ?case by (cases i) auto
qed

lemma length_concat_sum: "length (concat xss) = sum_list (map length xss)"
  by (simp add: length_concat)

end
