(* ===== verification/Wire.thy ===== *)
theory Wire
  imports Prelude
begin

text \<open>
  The SSH wire encoding, \<^verbatim>\<open>src/src/wire.rs\<close>: the \<open>put_*\<close> writers, \<open>encode_mpint\<close>, and \<open>Parser\<close>, a
  cursor over a byte slice. A writer takes the buffer it extends and returns it. The interface
  between a writer and its reader is the locale \<open>wire_codec\<close>: what was put is read back and the
  cursor ends right behind it, whatever follows. It is interpreted on every put/get pair of the
  file, and the message formats of the other theories are parsed back through its lemmas.
\<close>

section \<open>Writers\<close>

text \<open>\<open>u32::to_be_bytes\<close>, \<open>u32::from_be_bytes\<close> and their 64-bit siblings.\<close>

definition be_bytes32 :: "u32 \<Rightarrow> bytes" where
  "be_bytes32 v = [ucast (drop_bit 24 v), ucast (drop_bit 16 v), ucast (drop_bit 8 v), ucast v]"

definition from_be32 :: "byte \<Rightarrow> byte \<Rightarrow> byte \<Rightarrow> byte \<Rightarrow> u32" where
  "from_be32 a b c d =
     push_bit 24 (ucast a) OR push_bit 16 (ucast b) OR push_bit 8 (ucast c) OR ucast d"

definition be_bytes64 :: "u64 \<Rightarrow> bytes" where
  "be_bytes64 v = map (\<lambda>i. ucast (drop_bit (56 - 8 * i) v)) [0..<8]"

definition put_u8 :: "bytes \<Rightarrow> byte \<Rightarrow> bytes" where
  "put_u8 buf v = buf @ [v]"

definition put_u32 :: "bytes \<Rightarrow> u32 \<Rightarrow> bytes" where
  "put_u32 buf v = buf @ be_bytes32 v"

definition put_u64 :: "bytes \<Rightarrow> u64 \<Rightarrow> bytes" where
  "put_u64 buf v = buf @ be_bytes64 v"

definition put_bool :: "bytes \<Rightarrow> bool \<Rightarrow> bytes" where
  "put_bool buf v = buf @ [of_bool v]"

definition put_bytes :: "bytes \<Rightarrow> bytes \<Rightarrow> bytes" where
  "put_bytes buf s = put_u32 buf (of_nat (length s)) @ s"

definition put_str :: "bytes \<Rightarrow> rstr \<Rightarrow> bytes" where
  "put_str buf s = put_bytes buf s"

text \<open>The loop of \<open>put_namelist\<close>, with the index of \<open>enumerate\<close> and the string built so far.\<close>

fun join_names :: "nat \<Rightarrow> rstr \<Rightarrow> rstr list \<Rightarrow> rstr" where
  "join_names i joined [] = joined"
| "join_names i joined (n # ns) =
     join_names (Suc i) ((if i \<noteq> 0 then joined @ [44] else joined) @ n) ns"

definition put_namelist :: "bytes \<Rightarrow> rstr list \<Rightarrow> bytes" where
  "put_namelist buf names = put_str buf (join_names 0 [] names)"

text \<open>\<open>encode_mpint\<close>: the loop that skips leading zero bytes, then the three shapes.\<close>

function skip_zeros :: "bytes \<Rightarrow> nat \<Rightarrow> nat" where
  "skip_zeros bs i = (if i < length bs \<and> bs ! i = 0 then skip_zeros bs (Suc i) else i)"
  by pat_completeness auto
termination
  by (relation "measure (\<lambda>(bs, i). length bs - i)") auto

declare skip_zeros.simps [simp del]

definition encode_mpint :: "bytes \<Rightarrow> bytes" where
  "encode_mpint bs =
     (let i = skip_zeros bs 0 in
      if i = length bs then put_u32 [] 1 @ [0]
      else
        let need_zero = (bs ! i) AND 0x80 \<noteq> 0;
            data_len = length bs - i + (if need_zero then 1 else 0)
        in put_u32 [] (of_nat data_len) @ (if need_zero then [0] else []) @ drop i bs)"

section \<open>The parser\<close>

record parser =
  buf :: bytes
  off :: nat

definition parser_new :: "bytes \<Rightarrow> parser" where
  "parser_new b = \<lparr>buf = b, off = 0\<rparr>"

definition p_remaining :: "parser \<Rightarrow> nat" where
  "p_remaining p = length (buf p) - off p"

definition p_rest :: "parser \<Rightarrow> bytes result" where
  "p_rest p = (if off p \<le> length (buf p) then Inr (drop (off p) (buf p)) else Inl Panic)"

text \<open>\<open>self.off += n\<close>.\<close>

definition p_advance :: "nat \<Rightarrow> (parser, unit) act" where
  "p_advance n = modify (\<lambda>p. p\<lparr>off := off p + n\<rparr>)"

definition p_u8 :: "(parser, byte) act" where
  "p_u8 = withS (\<lambda>p.
     if off p \<ge> length (buf p) then fail (Protocol ''truncated u8'')
     else bindE (tryR (index (buf p) (off p))) (\<lambda>v. bindE (p_advance 1) (\<lambda>_. ret v)))"

text \<open>\<open>u32::from_be_bytes(s.try_into().unwrap())\<close> on a slice \<open>s\<close>: the conversion to \<open>[u8; 4]\<close> fails on any other length.\<close>

definition be32_of :: "bytes \<Rightarrow> u32 result" where
  "be32_of s = (case s of [a, b, c, d] \<Rightarrow> Inr (from_be32 a b c d) | _ \<Rightarrow> Inl Panic)"

definition p_u32 :: "(parser, u32) act" where
  "p_u32 = withS (\<lambda>p.
     if off p + 4 > length (buf p) then fail (Protocol ''truncated u32'')
     else
       bindE (tryR (slice (off p) (off p + 4) (buf p))) (\<lambda>s.
       bindE (tryR (be32_of s)) (\<lambda>v. bindE (p_advance 4) (\<lambda>_. ret v))))"

definition p_bool :: "(parser, bool) act" where
  "p_bool = bindE p_u8 (\<lambda>v. ret (v \<noteq> 0))"

text \<open>The tail that \<open>bytes\<close> and \<open>take\<close> share: check, slice, advance.\<close>

definition p_slice :: "string \<Rightarrow> nat \<Rightarrow> (parser, bytes) act" where
  "p_slice msg n = withS (\<lambda>p.
     if off p + n > length (buf p) then fail (Protocol msg)
     else bindE (tryR (slice (off p) (off p + n) (buf p))) (\<lambda>s. bindE (p_advance n) (\<lambda>_. ret s)))"

definition p_bytes :: "(parser, bytes) act" where
  "p_bytes = bindE p_u32 (\<lambda>n. p_slice ''truncated string'' (unat n))"

text \<open>\<open>std::str::from_utf8\<close> accepts exactly the well-formed UTF-8 sequences.\<close>

definition cont :: "byte \<Rightarrow> bool" where
  "cont b \<longleftrightarrow> 0x80 \<le> b \<and> b \<le> 0xBF"

fun utf8_ok :: "bytes \<Rightarrow> bool" where
  "utf8_ok [] = True"
| "utf8_ok (a # bs) =
     (if a < 0x80 then utf8_ok bs
      else if 0xC2 \<le> a \<and> a \<le> 0xDF then
        (case bs of b # cs \<Rightarrow> cont b \<and> utf8_ok cs | _ \<Rightarrow> False)
      else if 0xE0 \<le> a \<and> a \<le> 0xEF then
        (case bs of
           b # c # ds \<Rightarrow>
             cont b \<and> cont c \<and> (a = 0xE0 \<longrightarrow> 0xA0 \<le> b) \<and> (a = 0xED \<longrightarrow> b \<le> 0x9F) \<and> utf8_ok ds
         | _ \<Rightarrow> False)
      else if 0xF0 \<le> a \<and> a \<le> 0xF4 then
        (case bs of
           b # c # d # es \<Rightarrow>
             cont b \<and> cont c \<and> cont d \<and> (a = 0xF0 \<longrightarrow> 0x90 \<le> b) \<and> (a = 0xF4 \<longrightarrow> b \<le> 0x8F)
             \<and> utf8_ok es
         | _ \<Rightarrow> False)
      else False)"

definition from_utf8 :: "error \<Rightarrow> bytes \<Rightarrow> rstr result" where
  "from_utf8 e b = (if utf8_ok b then Inr b else Inl e)"

definition p_str :: "(parser, rstr) act" where
  "p_str = bindE p_bytes (\<lambda>b. tryR (from_utf8 (Protocol ''non-utf8 string'') b))"

text \<open>\<open>s.split(',')\<close>: the pieces between the commas, one more than there are commas.\<close>

fun split_on :: "byte \<Rightarrow> rstr \<Rightarrow> rstr list" where
  "split_on c [] = [[]]"
| "split_on c (x # xs) =
     (if x = c then [] # split_on c xs
      else case split_on c xs of [] \<Rightarrow> [[x]] | y # ys \<Rightarrow> (x # y) # ys)"

definition split_namelist :: "rstr \<Rightarrow> rstr list" where
  "split_namelist s = (if s = [] then [] else split_on 44 s)"

definition p_namelist :: "(parser, rstr list) act" where
  "p_namelist = bindE p_str (\<lambda>s. if s = [] then ret [] else ret (split_on 44 s))"

definition p_skip :: "nat \<Rightarrow> (parser, unit) act" where
  "p_skip n = withS (\<lambda>p.
     if off p + n > length (buf p) then fail (Protocol ''truncated skip'') else p_advance n)"

definition p_take :: "nat \<Rightarrow> (parser, bytes) act" where
  "p_take n = p_slice ''truncated take'' n"

section \<open>Integers on the wire\<close>

lemma length_be_bytes32 [simp]: "length (be_bytes32 v) = 4"
  by (simp add: be_bytes32_def)

lemma length_be_bytes64 [simp]: "length (be_bytes64 v) = 8"
  by (simp add: be_bytes64_def)

lemma from_be32_be_bytes32:
  "from_be32 (ucast (drop_bit 24 v)) (ucast (drop_bit 16 v)) (ucast (drop_bit 8 v)) (ucast v) = v"
  unfolding from_be32_def
proof (rule bit_word_eqI)
  fix n :: nat
  assume "n < LENGTH(32)"
  then consider "n < 8" | "8 \<le> n" "n < 16" | "16 \<le> n" "n < 24" | "24 \<le> n" "n < 32" by force
  then show "bit (push_bit 24 (ucast (ucast (drop_bit 24 v) :: byte)) OR
      push_bit 16 (ucast (ucast (drop_bit 16 v) :: byte)) OR
      push_bit 8 (ucast (ucast (drop_bit 8 v) :: byte)) OR ucast (ucast v :: byte) :: u32) n = bit v n"
    by cases (auto simp: bit_simps)
qed

lemma be_bytes32_from_be32: "be_bytes32 (from_be32 a b c d) = [a, b, c, d]"
  unfolding from_be32_def be_bytes32_def
  by (auto intro!: bit_word_eqI simp: bit_simps impossible_bit)

lemma be_bytes32_nth:
  "from_be32 (be_bytes32 v ! 0) (be_bytes32 v ! 1) (be_bytes32 v ! 2) (be_bytes32 v ! 3) = v"
  by (simp add: be_bytes32_def from_be32_be_bytes32)

section \<open>The readers, outcome by outcome\<close>

text \<open>Behind its check no reader indexes out of range.\<close>

lemma p_u8_eq:
  "p_u8 p =
     (if off p \<ge> length (buf p) then (Inl (Protocol ''truncated u8''), p)
      else (Inr (buf p ! off p), p\<lparr>off := off p + 1\<rparr>))"
  by (simp add: p_u8_def p_advance_def withS_def fail_def bindE_modify ret_def)

lemma be32_of_slice:
  assumes "k + 4 \<le> length b"
  shows "be32_of (take 4 (drop k b)) = Inr (from_be32 (b ! k) (b ! (k + 1)) (b ! (k + 2)) (b ! (k + 3)))"
proof -
  have "take 4 (drop k b) = [b ! k, b ! (k + 1), b ! (k + 2), b ! (k + 3)]"
    using assms by (auto simp: list_eq_iff_nth_eq nth_Cons numeral_eq_Suc less_Suc_eq split: nat.splits)
  then show ?thesis by (simp add: be32_of_def)
qed

lemma p_u32_eq:
  "p_u32 p =
     (if off p + 4 > length (buf p) then (Inl (Protocol ''truncated u32''), p)
      else (Inr (from_be32 (buf p ! off p) (buf p ! (off p + 1)) (buf p ! (off p + 2))
                   (buf p ! (off p + 3))),
            p\<lparr>off := off p + 4\<rparr>))"
  by (simp add: p_u32_def p_advance_def withS_def fail_def be32_of_slice bindE_modify ret_def)

lemma p_slice_eq:
  "p_slice msg n p =
     (if off p + n > length (buf p) then (Inl (Protocol msg), p)
      else (Inr (take n (drop (off p) (buf p))), p\<lparr>off := off p + n\<rparr>))"
  by (simp add: p_slice_def p_advance_def withS_def fail_def bindE_modify ret_def)

lemma p_skip_eq:
  "p_skip n p =
     (if off p + n > length (buf p) then (Inl (Protocol ''truncated skip''), p)
      else (Inr (), p\<lparr>off := off p + n\<rparr>))"
  by (simp add: p_skip_def p_advance_def withS_def fail_def modify_def)

section \<open>The codec interface\<close>

text \<open>\<open>cursor p r\<close>: the parser stands before the unread bytes \<open>r\<close>.\<close>

definition cursor :: "parser \<Rightarrow> bytes \<Rightarrow> bool" where
  "cursor p r \<longleftrightarrow> off p \<le> length (buf p) \<and> drop (off p) (buf p) = r"

lemma cursor_new [simp]: "cursor (parser_new b) b"
  by (simp add: cursor_def parser_new_def)

lemma cursor_length: "cursor p r \<Longrightarrow> length (buf p) = off p + length r"
  by (auto simp: cursor_def)

lemma cursor_advance:
  assumes "cursor p (xs @ r)"
  shows "cursor (p\<lparr>off := off p + length xs\<rparr>) r"
proof -
  have "drop (off p + length xs) (buf p) = drop (length xs) (drop (off p) (buf p))"
    by (simp add: add.commute)
  also have "\<dots> = r" using assms by (simp add: cursor_def)
  finally show ?thesis using cursor_length [OF assms] by (simp add: cursor_def)
qed

lemma cursor_nth:
  "cursor p (xs @ r) \<Longrightarrow> i < length xs \<Longrightarrow> buf p ! (off p + i) = xs ! i"
  unfolding cursor_def by (metis nth_append nth_drop)

text \<open>A reader keeps the buffer and never moves the cursor back or past the end.\<close>

definition advances :: "parser \<Rightarrow> parser \<Rightarrow> bool" where
  "advances p q \<longleftrightarrow>
     (off p \<le> length (buf p) \<longrightarrow> buf q = buf p \<and> off p \<le> off q \<and> off q \<le> length (buf q))"

interpretation adv: act_preorder advances
  by unfold_locales (auto simp: advances_def)

text \<open>
  \<open>yields m bs x r\<close>: reading with \<open>m\<close> at a cursor before \<open>bs\<close> succeeds with \<open>x\<close> and leaves the
  cursor before \<open>r\<close>.
\<close>

definition yields :: "(parser, 'a) act \<Rightarrow> bytes \<Rightarrow> 'a \<Rightarrow> bytes \<Rightarrow> bool" where
  "yields m bs x r \<longleftrightarrow> (\<forall>p. cursor p bs \<longrightarrow> (\<exists>q. m p = (Inr x, q) \<and> cursor q r))"

lemma yields_ret: "yields (ret x) r x r"
  by (simp add: yields_def ret_def)

lemma yields_bind:
  assumes "yields m bs x r" and "yields (f x) r y r'"
  shows "yields (bindE m f) bs y r'"
  unfolding yields_def
proof (intro allI impI)
  fix p
  assume "cursor p bs"
  then obtain q where "m p = (Inr x, q)" and "cursor q r" using assms(1) by (auto simp: yields_def)
  moreover from \<open>cursor q r\<close> obtain q' where "f x q = (Inr y, q')" and "cursor q' r'"
    using assms(2) by (auto simp: yields_def)
  ultimately show "\<exists>q. bindE m f p = (Inr y, q) \<and> cursor q r'" by (auto simp: bindE_def)
qed

lemma yields_new: "yields m bs x r \<Longrightarrow> fst (m (parser_new bs)) = Inr x"
  unfolding yields_def using cursor_new by (metis fst_conv)

lemma yields_useE:
  assumes "yields m bs x r" and "cursor p bs"
  obtains q where "useE m p f s = f x q s" and "cursor q r"
  using assms by (auto simp: yields_def useE_def intro: that)

text \<open>
  The contract of a writer \<open>put\<close> and its reader \<open>get\<close> on the values \<open>ok\<close>: writing only appends;
  reading at a cursor before a written value returns the value and moves behind it; whatever
  the input, the reader keeps the buffer and stays inside it.
\<close>

locale wire_codec =
  fixes put :: "bytes \<Rightarrow> 'a \<Rightarrow> bytes"
    and get :: "(parser, 'a) act"
    and ok :: "'a \<Rightarrow> bool"
  assumes put_append: "put b v = b @ put [] v"
    and get_put: "ok v \<Longrightarrow> yields get (put [] v @ r) v r"
    and get_bound: "ensures advances get"
begin

lemma roundtrip: "ok v \<Longrightarrow> fst (get (parser_new (put [] v @ r))) = Inr v"
  by (rule yields_new) (rule get_put)

lemma put_Cons: "put (b # bs) v = b # (bs @ put [] v)"
  using put_append [of "b # bs" v] by simp

lemma put_app: "put (xs @ ys) v = xs @ put ys v"
  using put_append [of "xs @ ys" v] put_append [of ys v] by simp

text \<open>The encoding is prefix-free: a value written in front of some bytes can be read in one way.\<close>

lemma put_inj:
  assumes "ok v" and "ok w" and "put [] v @ r = put [] w @ r'"
  shows "v = w \<and> r = r'"
proof -
  let ?p = "parser_new (put [] v @ r)"
  obtain q where q: "get ?p = (Inr v, q)" "cursor q r"
    using get_put [OF assms(1), of r] cursor_new [of "put [] v @ r"] unfolding yields_def by blast
  have "cursor ?p (put [] w @ r')" using assms(3) by simp
  then have "v = w" and "cursor q r'"
    using get_put [OF assms(2), of r'] q(1) by (auto simp: yields_def)
  then show ?thesis using q(2) by (auto simp: cursor_def)
qed

end

lemma p_u8_codec: "wire_codec put_u8 p_u8 (\<lambda>_. True)"
proof
  fix v :: byte and r
  show "yields p_u8 (put_u8 [] v @ r) v r"
    unfolding yields_def
  proof (intro allI impI)
  fix p assume c: "cursor p (put_u8 [] v @ r)"
  then have "buf p ! off p = v" using cursor_nth [of p "[v]" r 0] by (simp add: put_u8_def)
  then have "p_u8 p = (Inr v, p\<lparr>off := off p + 1\<rparr>)"
    using cursor_length [OF c] by (simp add: p_u8_eq put_u8_def)
  moreover have "cursor (p\<lparr>off := off p + 1\<rparr>) r"
    using cursor_advance [of p "[v]" r] c by (simp add: put_u8_def)
  ultimately show "\<exists>q. p_u8 p = (Inr v, q) \<and> cursor q r" by auto
  qed
qed (auto simp: put_u8_def p_u8_eq ensures_def advances_def)

lemma p_u32_codec: "wire_codec put_u32 p_u32 (\<lambda>_. True)"
proof
  fix v :: u32 and r
  show "yields p_u32 (put_u32 [] v @ r) v r"
    unfolding yields_def
  proof (intro allI impI)
  fix p assume "cursor p (put_u32 [] v @ r)"
  then have c: "cursor p (be_bytes32 v @ r)" by (simp add: put_u32_def)
  have "p_u32 p = (Inr v, p\<lparr>off := off p + 4\<rparr>)"
    using cursor_length [OF c] cursor_nth [OF c, of 0] cursor_nth [OF c, of 1]
      cursor_nth [OF c, of 2] cursor_nth [OF c, of 3] be_bytes32_nth [of v]
    by (simp add: p_u32_eq)
  moreover have "cursor (p\<lparr>off := off p + 4\<rparr>) r" using cursor_advance [OF c] by simp
  ultimately show "\<exists>q. p_u32 p = (Inr v, q) \<and> cursor q r" by auto
  qed
qed (auto simp: put_u32_def p_u32_eq ensures_def advances_def)

interpretation wu8: wire_codec put_u8 p_u8 "\<lambda>_. True"
  by (rule p_u8_codec)

interpretation wu32: wire_codec put_u32 p_u32 "\<lambda>_. True"
  by (rule p_u32_codec)

interpretation wbool: wire_codec put_bool p_bool "\<lambda>_. True"
proof
  fix v r
  have "yields p_u8 (put_bool [] v @ r) (of_bool v) r"
    using wu8.get_put [of "of_bool v" r] by (simp add: put_bool_def put_u8_def)
  moreover have "yields (ret (of_bool v \<noteq> (0 :: byte))) r v r"
    using yields_ret [of v r] by simp
  ultimately show "yields p_bool (put_bool [] v @ r) v r"
    unfolding p_bool_def by (rule yields_bind)
next
  show "ensures advances p_bool"
    unfolding p_bool_def by (intro adv.ens_bindE adv.ens_ret wu8.get_bound)
qed (simp add: put_bool_def)

lemma p_slice_cursor:
  assumes "cursor p (s @ r)"
  shows "p_slice msg (length s) p = (Inr s, p\<lparr>off := off p + length s\<rparr>)"
proof -
  have "take (length s) (drop (off p) (buf p)) = s" using assms by (simp add: cursor_def)
  then show ?thesis using cursor_length [OF assms] by (simp add: p_slice_eq)
qed

lemma p_slice_yields: "length s = n \<Longrightarrow> yields (p_slice msg n) (s @ r) s r"
  unfolding yields_def using p_slice_cursor cursor_advance by blast

lemma p_slice_bound: "ensures advances (p_slice msg n)"
  by (auto simp: p_slice_eq ensures_def advances_def)

lemma p_skip_bound: "ensures advances (p_skip n)"
  by (auto simp: p_skip_eq ensures_def advances_def)

text \<open>And no reader panics, wherever its cursor stands.\<close>

lemma np_parsers [np_intro]:
  "never_panics p_u8" "never_panics p_u32" "never_panics (p_slice msg n)"
  by (simp_all add: never_panics_def p_u8_eq p_u32_eq p_slice_eq)

lemma np_parsers2 [np_intro]: "never_panics p_bool" "never_panics p_bytes" "never_panics (p_skip n)"
  "never_panics (p_take n)"
  unfolding p_bool_def p_bytes_def p_take_def by (intro np_intro | simp add: never_panics_def p_skip_eq)+

lemma np_str [np_intro]: "never_panics p_str"
  unfolding p_str_def by (intro np_intro np_tryR) (simp add: from_utf8_def)

lemma np_namelist [np_intro]: "never_panics p_namelist"
  unfolding p_namelist_def by (intro np_intro)

interpretation wbytes: wire_codec put_bytes p_bytes "\<lambda>s. length s < 2 ^ 32"
proof
  fix b s show "put_bytes b s = b @ put_bytes [] s"
    by (simp add: put_bytes_def put_u32_def)
next
  fix s :: bytes and r
  assume "length s < 2 ^ 32"
  then have "yields (p_slice m (unat (of_nat (length s) :: u32))) (s @ r) s r" for m
    by (intro p_slice_yields) (simp add: unat_of_nat_u32)
  with wu32.get_put [of "of_nat (length s)" "s @ r"] show "yields p_bytes (put_bytes [] s @ r) s r"
    unfolding p_bytes_def put_bytes_def append_assoc by (intro yields_bind) auto
next
  show "ensures advances p_bytes"
    unfolding p_bytes_def by (intro adv.ens_bindE wu32.get_bound p_slice_bound)
qed

interpretation wstr: wire_codec put_str p_str "\<lambda>s. length s < 2 ^ 32 \<and> utf8_ok s"
proof
  fix b s show "put_str b s = b @ put_str [] s"
    unfolding put_str_def by (rule wbytes.put_append)
next
  fix s :: bytes and r
  assume "length s < 2 ^ 32 \<and> utf8_ok s"
  then show "yields p_str (put_str [] s @ r) s r"
    unfolding p_str_def put_str_def
    by (intro yields_bind [OF wbytes.get_put])
       (auto simp: tryR_def from_utf8_def ret_def [abs_def, symmetric] yields_def)
next
  show "ensures advances p_str"
    unfolding p_str_def by (intro adv.ens_bindE wbytes.get_bound adv.ens_tryR)
qed

section \<open>Name lists\<close>

lemma join_names_Suc: "join_names (Suc i) joined ns = joined @ concat (map (\<lambda>n. 44 # n) ns)"
  by (induction ns arbitrary: i joined) auto

lemma join_names_0: "join_names 0 [] (n # ns) = n @ concat (map (\<lambda>n. 44 # n) ns)"
  by (simp add: join_names_Suc)

lemma split_on_nonempty [simp]: "split_on c s \<noteq> []"
  by (cases s) (auto split: list.splits)

lemma split_on_no_sep: "c \<notin> set n \<Longrightarrow> split_on c n = [n]"
  by (induction n) auto

lemma split_on_sep: "c \<notin> set n \<Longrightarrow> split_on c (n @ c # s) = n # split_on c s"
  by (induction n) auto

lemma split_on_join:
  assumes "44 \<notin> set n" and "\<forall>m \<in> set ns. 44 \<notin> set m"
  shows "split_on 44 (n @ concat (map (\<lambda>n. 44 # n) ns)) = n # ns"
  using assms
proof (induction ns arbitrary: n)
  case Nil
  then show ?case by (simp add: split_on_no_sep)
next
  case (Cons m ns)
  then show ?case by (simp add: split_on_sep)
qed

text \<open>
  The lists that survive the trip: names of ASCII characters other than the comma, and not the
  list of one empty name, whose encoding is that of the empty list.
\<close>

definition namelist_ok :: "rstr list \<Rightarrow> bool" where
  "namelist_ok ns \<longleftrightarrow> (\<forall>n \<in> set ns. \<forall>b \<in> set n. b < 0x80 \<and> b \<noteq> 44) \<and> ns \<noteq> [[]] \<and>
     length (join_names 0 [] ns) < 2 ^ 32"

lemma utf8_ok_ascii: "(\<forall>b \<in> set s. b < 0x80) \<Longrightarrow> utf8_ok s"
  by (induction s) auto

lemma utf8_ok_lit [simp]: "(\<forall>c \<in> set s. of_char c < (0x80 :: byte)) \<Longrightarrow> utf8_ok (lit s)"
  by (intro utf8_ok_ascii) (auto simp: lit_def)

lemma join_names_ascii:
  assumes "namelist_ok ns"
  shows "utf8_ok (join_names 0 [] ns)"
proof (cases ns)
  case Nil
  then show ?thesis by simp
next
  case (Cons n ms)
  with assms show ?thesis
    unfolding Cons join_names_0 by (intro utf8_ok_ascii) (auto simp: namelist_ok_def)
qed

lemma split_namelist_join:
  assumes "namelist_ok ns"
  shows "split_namelist (join_names 0 [] ns) = ns"
proof (cases ns)
  case Nil
  then show ?thesis by (simp add: split_namelist_def)
next
  case (Cons n ms)
  with assms have "44 \<notin> set n" and "\<forall>m \<in> set ms. 44 \<notin> set m"
    and "n @ concat (map (\<lambda>n. 44 # n) ms) \<noteq> []"
    by (auto simp: namelist_ok_def)
  then show ?thesis
    unfolding Cons join_names_0 split_namelist_def by (simp add: split_on_join)
qed

lemma p_namelist_split: "p_namelist = bindE p_str (\<lambda>s. ret (split_namelist s))"
  unfolding p_namelist_def split_namelist_def by (rule arg_cong [where f = "bindE p_str"]) auto

interpretation wnames: wire_codec put_namelist p_namelist namelist_ok
proof
  fix b ns show "put_namelist b ns = b @ put_namelist [] ns"
    unfolding put_namelist_def by (rule wstr.put_append)
next
  fix ns r
  assume ok: "namelist_ok ns"
  then have "length (join_names 0 [] ns) < 2 ^ 32 \<and> utf8_ok (join_names 0 [] ns)"
    using join_names_ascii by (auto simp: namelist_ok_def)
  from wstr.get_put [OF this] show "yields p_namelist (put_namelist [] ns @ r) ns r"
    unfolding p_namelist_split put_namelist_def
    by (rule yields_bind) (simp add: split_namelist_join [OF ok] yields_ret)
next
  show "ensures advances p_namelist"
    unfolding p_namelist_split by (intro adv.ens_bindE wstr.get_bound adv.ens_ret)
qed

section \<open>Multiple-precision integers\<close>

text \<open>The value of a big-endian byte string.\<close>

definition be_val :: "bytes \<Rightarrow> nat" where
  "be_val bs = foldl (\<lambda>v b. v * 256 + unat b) 0 bs"

lemma be_val_Nil [simp]: "be_val [] = 0"
  by (simp add: be_val_def)

lemma be_val_zero_Cons [simp]: "be_val (0 # bs) = be_val bs"
  by (simp add: be_val_def)

lemma skip_zeros_le: "i \<le> length bs \<Longrightarrow> skip_zeros bs i \<le> length bs"
  by (induction bs i rule: skip_zeros.induct) (subst skip_zeros.simps, simp)

lemma skip_zeros_stop:
  "skip_zeros bs i < length bs \<Longrightarrow> bs ! skip_zeros bs i \<noteq> 0"
proof (induction bs i rule: skip_zeros.induct)
  case (1 bs i)
  show ?case
  proof (cases "i < length bs \<and> bs ! i = 0")
    case True
    with 1 show ?thesis by (simp add: skip_zeros.simps [of bs i])
  next
    case False
    with 1 show ?thesis by (auto simp: skip_zeros.simps [of bs i])
  qed
qed

lemma skip_zeros_val: "be_val (drop (skip_zeros bs i) bs) = be_val (drop i bs)"
proof (induction bs i rule: skip_zeros.induct)
  case (1 bs i)
  show ?case
  proof (cases "i < length bs \<and> bs ! i = 0")
    case True
    with 1 have "be_val (drop (skip_zeros bs (Suc i)) bs) = be_val (drop (Suc i) bs)" by blast
    moreover have "drop i bs = 0 # drop (Suc i) bs" using True by (metis Cons_nth_drop_Suc)
    ultimately show ?thesis using True by (simp add: skip_zeros.simps [of bs i])
  next
    case False
    then show ?thesis by (auto simp: skip_zeros.simps [of bs i])
  qed
qed

lemma unat_byte_bound: "unat (b :: byte) < 256"
  using unsigned_less [of b] by simp

lemma high_bit_iff: "(b :: byte) AND 0x80 \<noteq> 0 \<longleftrightarrow> 0x80 \<le> b"
proof -
  have "b AND 0x80 \<noteq> 0 \<longleftrightarrow> bit b 7"
    using and_exp_eq_0_iff_not_bit [of b 7] by simp
  also have "\<dots> \<longleftrightarrow> bit (unat b) 7"
    by (simp add: bit_unsigned_iff)
  also have "\<dots> \<longleftrightarrow> odd (unat b div 128)"
    by (simp add: bit_iff_odd)
  also have "unat b div 128 = (if 128 \<le> unat b then 1 else 0)"
    using unat_byte_bound [of b] by (auto intro: div_nat_eqI)
  also have "odd (if 128 \<le> unat b then 1 else 0 :: nat) \<longleftrightarrow> 128 \<le> unat b" by simp
  finally show ?thesis by (simp add: word_le_nat_alt)
qed

text \<open>
  The body of an encoded integer: the whole value, no byte that could be dropped, and a clear
  sign bit. The integer zero keeps one zero byte.
\<close>

definition mpint_body :: "bytes \<Rightarrow> bytes" where
  "mpint_body bs =
     (let d = drop (skip_zeros bs 0) bs in if d = [] then [0] else if 0x80 \<le> hd d then 0 # d else d)"

lemma encode_mpint_body:
  "encode_mpint bs = put_bytes [] (mpint_body bs)"
proof -
  have le: "skip_zeros bs 0 \<le> length bs" by (rule skip_zeros_le) simp
  have hd: "hd (drop (skip_zeros bs 0) bs) = bs ! skip_zeros bs 0"
    if "skip_zeros bs 0 \<noteq> length bs" using that le by (simp add: hd_drop_conv_nth)
  show ?thesis
  proof (cases "skip_zeros bs 0 = length bs")
    case True
    then show ?thesis
      by (simp add: encode_mpint_def mpint_body_def put_bytes_def put_u32_def)
  next
    case False
    with hd le show ?thesis
      by (simp add: encode_mpint_def mpint_body_def put_bytes_def Let_def high_bit_iff put_u32_def
          algebra_simps)
  qed
qed

lemma mpint_body_canonical:
  "be_val (mpint_body bs) = be_val bs \<and> hd (mpint_body bs) < 0x80 \<and>
   (2 \<le> length (mpint_body bs) \<and> hd (mpint_body bs) = 0 \<longrightarrow> 0x80 \<le> mpint_body bs ! 1)"
proof -
  let ?d = "drop (skip_zeros bs 0) bs"
  have v: "be_val ?d = be_val bs" using skip_zeros_val [of bs 0] by simp
  have nz: "hd ?d \<noteq> 0" if "?d \<noteq> []"
    using that skip_zeros_stop [of bs 0] by (simp add: hd_drop_conv_nth)
  show ?thesis
  proof (cases "?d = []")
    case True
    with v show ?thesis by (simp add: mpint_body_def)
  next
    case False
    with v nz show ?thesis by (auto simp: mpint_body_def Let_def hd_conv_nth)
  qed
qed

text \<open>A string read off the wire is shorter than its 32-bit length field can say.\<close>

lemma p_bytes_u32: "p_bytes p = (Inr b, q) \<Longrightarrow> length b < 2 ^ 32"
  by (auto simp: p_bytes_def bindE_Inr p_slice_eq min_less_iff_disj unat_u32_bound split: if_splits)

section \<open>What a reader accepts\<close>

text \<open>
  \<open>reads m enc\<close>: when the reader returns a value, the bytes it took are that value's encoding. With
  the round trips of \<open>wire_codec\<close>, a reader accepts exactly the encodings.
\<close>

definition reads :: "(parser, 'a) act \<Rightarrow> ('a \<Rightarrow> bytes) \<Rightarrow> bool" where
  "reads m enc \<longleftrightarrow>
     (\<forall>p v q r. m p = (Inr v, q) \<longrightarrow> cursor p r \<longrightarrow> (\<exists>r'. r = enc v @ r' \<and> cursor q r'))"

lemma readsE:
  assumes "reads m enc" and "m p = (Inr v, q)" and "cursor p r"
  obtains r' where "r = enc v @ r'" and "cursor q r'"
  using assms unfolding reads_def by blast

lemma cursor_slice:
  assumes "cursor p r" and "off p + n \<le> length (buf p)"
  shows "r = take n (drop (off p) (buf p)) @ drop n r" and "cursor (p\<lparr>off := off p + n\<rparr>) (drop n r)"
proof -
  have r: "r = drop (off p) (buf p)" using assms(1) by (simp add: cursor_def)
  then show "r = take n (drop (off p) (buf p)) @ drop n r" by (simp only: append_take_drop_id)
  show "cursor (p\<lparr>off := off p + n\<rparr>) (drop n r)" using assms(2) r by (simp add: cursor_def add.commute)
qed

lemma reads_slice: "p_slice msg n p = (Inr v, q) \<Longrightarrow> cursor p r \<Longrightarrow> r = v @ drop n r \<and> length v = n \<and> cursor q (drop n r)"
  using cursor_slice [of p r n] by (auto simp: p_slice_eq split: if_splits)

lemma reads_u8: "reads p_u8 (\<lambda>v. [v])"
  unfolding reads_def
proof (intro allI impI)
  fix p v q r
  assume v: "p_u8 p = (Inr v, q)" and c: "cursor p r"
  then have le: "off p + 1 \<le> length (buf p)" and q: "v = buf p ! off p" "q = p\<lparr>off := off p + 1\<rparr>"
    by (auto simp: p_u8_eq split: if_splits)
  have "take 1 (drop (off p) (buf p)) = [v]" using le q by (simp add: take_Suc_conv_app_nth)
  with cursor_slice [OF c le] q show "\<exists>r'. r = [v] @ r' \<and> cursor q r'" by metis
qed

lemma reads_u32: "reads p_u32 be_bytes32"
  unfolding reads_def
proof (intro allI impI)
  fix p v q r
  assume v: "p_u32 p = (Inr v, q)" and c: "cursor p r"
  let ?b = "\<lambda>i. buf p ! (off p + i)"
  have le: "off p + 4 \<le> length (buf p)" and q: "q = p\<lparr>off := off p + 4\<rparr>"
    and w: "v = from_be32 (?b 0) (?b 1) (?b 2) (?b 3)"
    using v by (auto simp: p_u32_eq split: if_splits)
  have "take 4 (drop (off p) (buf p)) = [?b 0, ?b 1, ?b 2, ?b 3]"
    using le by (simp add: take_Suc_conv_app_nth numeral_eq_Suc)
  with cursor_slice [OF c le] q w show "\<exists>r'. r = be_bytes32 v @ r' \<and> cursor q r'"
    by (metis be_bytes32_from_be32)
qed

lemma reads_bytes: "reads p_bytes (put_bytes [])"
  unfolding reads_def
proof (intro allI impI)
  fix p v q r
  assume "p_bytes p = (Inr v, q)" and c: "cursor p r"
  then obtain n u where n: "p_u32 p = (Inr n, u)" and v: "p_slice ''truncated string'' (unat n) u = (Inr v, q)"
    by (auto simp: p_bytes_def bindE_Inr)
  from readsE [OF reads_u32 n c] obtain r' where r': "r = be_bytes32 n @ r'" "cursor u r'" .
  from reads_slice [OF v r'(2)] have s: "r' = v @ drop (unat n) r'" "length v = unat n" "cursor q (drop (unat n) r')"
    by auto
  then have "r = put_bytes [] v @ drop (unat n) r'" using r'(1) by (simp add: put_bytes_def put_u32_def)
  with s(3) show "\<exists>r'. r = put_bytes [] v @ r' \<and> cursor q r'" by blast
qed

lemma reads_str: "reads p_str (put_str [])"
  using reads_bytes unfolding reads_def p_str_def put_str_def
  by (auto simp: bindE_Inr tryR_def from_utf8_def split: if_splits)

lemma reads_bool_False: "p_bool p = (Inr False, q) \<Longrightarrow> cursor p r \<Longrightarrow> \<exists>r'. r = 0 # r' \<and> cursor q r'"
  by (auto simp: p_bool_def bindE_Inr ret_def elim!: readsE [OF reads_u8])

section \<open>Properties\<close>

text \<open>Claim C32. A UTF-8 string written by put_str is read back by str, which stops right behind it.\<close>

theorem string_roundtrip:
  assumes "length s < 2 ^ 32" and "utf8_ok s"
  shows "\<exists>q. p_str (parser_new (put_str [] s @ r)) = (Inr s, q) \<and> cursor q r"
  using wstr.get_put [of s r] assms cursor_new [of "put_str [] s @ r"] by (auto simp: yields_def)

theorem string_roundtrip_witness:
  "\<exists>q. p_str (parser_new (put_str [] (lit ''ok'') @ [1])) = (Inr (lit ''ok''), q) \<and> cursor q [1]"
  by (rule string_roundtrip) simp_all

text \<open>Claim C33. Whatever str accepts is the encoding of the UTF-8 string it returns, and the cursor
  stands right behind it.\<close>

theorem string_reader_sound:
  assumes "p_str p = (Inr s, q)" and "cursor p b"
  shows "\<exists>r. b = put_str [] s @ r \<and> cursor q r \<and> utf8_ok s"
proof -
  obtain r where "b = put_str [] s @ r" "cursor q r" using readsE [OF reads_str assms] .
  moreover have "utf8_ok s"
    using assms(1) by (auto simp: p_str_def bindE_Inr tryR_def from_utf8_def split: if_splits)
  ultimately show ?thesis by blast
qed

theorem string_reader_sound_witness: "\<exists>r. [0, 0, 0, 1, 65, 7] = put_str [] [65] @ r \<and> utf8_ok [65]"
proof -
  let ?p = "parser_new [0, 0, 0, 1, 65, 7]"
  have "p_str ?p = (Inr [65], ?p\<lparr>off := 5\<rparr>)"
    by (simp add: p_str_def p_bytes_def p_u32_eq p_slice_eq bindE_def tryR_def from_utf8_def parser_new_def
        from_be32_def)
  from string_reader_sound [OF this cursor_new] show ?thesis by blast
qed

lemma namelist_roundtrip:
  assumes "namelist_ok ns"
  shows "\<exists>q. p_namelist (parser_new (put_namelist [] ns @ r)) = (Inr ns, q) \<and> cursor q r"
  using wnames.get_put [OF assms, of r] cursor_new [of "put_namelist [] ns @ r"] by (auto simp: yields_def)



text \<open>Claim C35. encode_mpint writes the same non-negative number as a string whose first byte has its
  high bit clear and that has no superfluous leading zero.\<close>

theorem mpint_canonical:
  "\<exists>body. encode_mpint bs = put_bytes [] body \<and> be_val body = be_val bs \<and> hd body < 0x80 \<and>
     (2 \<le> length body \<and> hd body = 0 \<longrightarrow> 0x80 \<le> body ! 1)"
  using encode_mpint_body [of bs] mpint_body_canonical [of bs] by blast

theorem mpint_canonical_witness: "\<exists>body. encode_mpint [0, 0x80] = put_bytes [] body \<and> be_val body = 128"
  using mpint_canonical [of "[0, 0x80]"] by (auto simp: be_val_def)

end
