(* ===== verification/Proto.thy ===== *)
theory Proto
  imports Wire
begin

text \<open>
  Message numbers, reason codes and algorithm lists, \<^verbatim>\<open>src/src/proto/mod.rs\<close>, and the key-exchange
  proposal \<open>KexInit\<close> with algorithm negotiation, \<^verbatim>\<open>src/src/proto/msg.rs\<close>. The message numbers are
  abbreviations, so that a \<open>match\<close> on them is a chain of comparisons with numerals.
\<close>

section \<open>Message numbers\<close>

abbreviation SSH_MSG_DISCONNECT :: byte where "SSH_MSG_DISCONNECT \<equiv> 1"
abbreviation SSH_MSG_IGNORE :: byte where "SSH_MSG_IGNORE \<equiv> 2"
abbreviation SSH_MSG_UNIMPLEMENTED :: byte where "SSH_MSG_UNIMPLEMENTED \<equiv> 3"
abbreviation SSH_MSG_DEBUG :: byte where "SSH_MSG_DEBUG \<equiv> 4"
abbreviation SSH_MSG_SERVICE_REQUEST :: byte where "SSH_MSG_SERVICE_REQUEST \<equiv> 5"
abbreviation SSH_MSG_SERVICE_ACCEPT :: byte where "SSH_MSG_SERVICE_ACCEPT \<equiv> 6"
abbreviation SSH_MSG_EXT_INFO :: byte where "SSH_MSG_EXT_INFO \<equiv> 7"
abbreviation SSH_MSG_KEXINIT :: byte where "SSH_MSG_KEXINIT \<equiv> 20"
abbreviation SSH_MSG_NEWKEYS :: byte where "SSH_MSG_NEWKEYS \<equiv> 21"
abbreviation SSH_MSG_KEX_ECDH_INIT :: byte where "SSH_MSG_KEX_ECDH_INIT \<equiv> 30"
abbreviation SSH_MSG_KEX_ECDH_REPLY :: byte where "SSH_MSG_KEX_ECDH_REPLY \<equiv> 31"
abbreviation SSH_MSG_USERAUTH_REQUEST :: byte where "SSH_MSG_USERAUTH_REQUEST \<equiv> 50"
abbreviation SSH_MSG_USERAUTH_FAILURE :: byte where "SSH_MSG_USERAUTH_FAILURE \<equiv> 51"
abbreviation SSH_MSG_USERAUTH_SUCCESS :: byte where "SSH_MSG_USERAUTH_SUCCESS \<equiv> 52"
abbreviation SSH_MSG_USERAUTH_BANNER :: byte where "SSH_MSG_USERAUTH_BANNER \<equiv> 53"
abbreviation SSH_MSG_GLOBAL_REQUEST :: byte where "SSH_MSG_GLOBAL_REQUEST \<equiv> 80"
abbreviation SSH_MSG_REQUEST_SUCCESS :: byte where "SSH_MSG_REQUEST_SUCCESS \<equiv> 81"
abbreviation SSH_MSG_REQUEST_FAILURE :: byte where "SSH_MSG_REQUEST_FAILURE \<equiv> 82"
abbreviation SSH_MSG_CHANNEL_OPEN :: byte where "SSH_MSG_CHANNEL_OPEN \<equiv> 90"
abbreviation SSH_MSG_CHANNEL_OPEN_CONFIRMATION :: byte where
  "SSH_MSG_CHANNEL_OPEN_CONFIRMATION \<equiv> 91"
abbreviation SSH_MSG_CHANNEL_OPEN_FAILURE :: byte where "SSH_MSG_CHANNEL_OPEN_FAILURE \<equiv> 92"
abbreviation SSH_MSG_CHANNEL_WINDOW_ADJUST :: byte where "SSH_MSG_CHANNEL_WINDOW_ADJUST \<equiv> 93"
abbreviation SSH_MSG_CHANNEL_DATA :: byte where "SSH_MSG_CHANNEL_DATA \<equiv> 94"
abbreviation SSH_MSG_CHANNEL_EXTENDED_DATA :: byte where "SSH_MSG_CHANNEL_EXTENDED_DATA \<equiv> 95"
abbreviation SSH_MSG_CHANNEL_EOF :: byte where "SSH_MSG_CHANNEL_EOF \<equiv> 96"
abbreviation SSH_MSG_CHANNEL_CLOSE :: byte where "SSH_MSG_CHANNEL_CLOSE \<equiv> 97"
abbreviation SSH_MSG_CHANNEL_REQUEST :: byte where "SSH_MSG_CHANNEL_REQUEST \<equiv> 98"
abbreviation SSH_MSG_CHANNEL_SUCCESS :: byte where "SSH_MSG_CHANNEL_SUCCESS \<equiv> 99"
abbreviation SSH_MSG_CHANNEL_FAILURE :: byte where "SSH_MSG_CHANNEL_FAILURE \<equiv> 100"
abbreviation SSH_MSG_PING :: byte where "SSH_MSG_PING \<equiv> 192"
abbreviation SSH_MSG_PONG :: byte where "SSH_MSG_PONG \<equiv> 193"

abbreviation SSH_DISCONNECT_BY_APPLICATION :: u32 where "SSH_DISCONNECT_BY_APPLICATION \<equiv> 11"
abbreviation SSH_DISCONNECT_NO_MORE_AUTH_METHODS_AVAILABLE :: u32 where
  "SSH_DISCONNECT_NO_MORE_AUTH_METHODS_AVAILABLE \<equiv> 14"
abbreviation SSH_OPEN_CONNECT_FAILED :: u32 where "SSH_OPEN_CONNECT_FAILED \<equiv> 2"
abbreviation SSH_OPEN_UNKNOWN_CHANNEL_TYPE :: u32 where "SSH_OPEN_UNKNOWN_CHANNEL_TYPE \<equiv> 3"

definition KEX_STRICT_C :: rstr where "KEX_STRICT_C = lit ''kex-strict-c-v00@openssh.com''"
definition KEX_STRICT_S :: rstr where "KEX_STRICT_S = lit ''kex-strict-s-v00@openssh.com''"
definition EXT_INFO_C :: rstr where "EXT_INFO_C = lit ''ext-info-c''"
definition EXT_INFO_S :: rstr where "EXT_INFO_S = lit ''ext-info-s''"

definition is_kex_msg :: "byte \<Rightarrow> bool" where
  "is_kex_msg t \<longleftrightarrow> t = SSH_MSG_KEXINIT \<or> t = SSH_MSG_NEWKEYS \<or> 30 \<le> t \<and> t \<le> 49"

definition is_transport_ignore :: "byte \<Rightarrow> bool" where
  "is_transport_ignore t \<longleftrightarrow>
     t = SSH_MSG_IGNORE \<or> t = SSH_MSG_DEBUG \<or> t = SSH_MSG_UNIMPLEMENTED"

section \<open>Algorithm lists and proposals\<close>

definition SERVER_KEX :: "rstr list" where
  "SERVER_KEX = [lit ''curve25519-sha256'', lit ''curve25519-sha256@libssh.org'', EXT_INFO_S,
     KEX_STRICT_S]"

definition SERVER_HOST_KEY :: "rstr list" where
  "SERVER_HOST_KEY = [lit ''ssh-ed25519'']"

definition SERVER_CIPHERS :: "rstr list" where
  "SERVER_CIPHERS = [lit ''chacha20-poly1305@openssh.com'', lit ''aes256-gcm@openssh.com'',
     lit ''aes128-gcm@openssh.com'']"

definition SERVER_MACS :: "rstr list" where
  "SERVER_MACS = [lit ''hmac-sha2-256'', lit ''hmac-sha2-512'']"

definition SERVER_COMP :: "rstr list" where
  "SERVER_COMP = [lit ''none'']"

definition CLIENT_KEX :: "rstr list" where
  "CLIENT_KEX = [lit ''curve25519-sha256'', lit ''curve25519-sha256@libssh.org'', EXT_INFO_C,
     KEX_STRICT_C]"

lemmas [lit_simps] = KEX_STRICT_C_def KEX_STRICT_S_def EXT_INFO_C_def EXT_INFO_S_def
  SERVER_KEX_def SERVER_HOST_KEY_def SERVER_CIPHERS_def SERVER_MACS_def SERVER_COMP_def
  CLIENT_KEX_def

record kexinit =
  cookie :: bytes
  kex_algs :: "rstr list"
  host_key_algs :: "rstr list"
  enc_c2s :: "rstr list"
  enc_s2c :: "rstr list"
  mac_c2s :: "rstr list"
  mac_s2c :: "rstr list"
  comp_c2s :: "rstr list"
  comp_s2c :: "rstr list"
  lang_c2s :: "rstr list"
  lang_s2c :: "rstr list"
  first_kex_packet_follows :: bool
  raw :: bytes

text \<open>
  \<open>KexInit::build\<close>. The 16 cookie bytes, which the code draws from the system generator, are an
  argument: the caller draws them.
\<close>

definition kexinit_build ::
  "bytes \<Rightarrow> rstr list \<Rightarrow> rstr list \<Rightarrow> rstr list \<Rightarrow> rstr list \<Rightarrow> kexinit" where
  "kexinit_build ck kex host ciphers macs =
     (let r0 = [SSH_MSG_KEXINIT] @ ck;
          r1 = put_namelist r0 kex;
          r2 = put_namelist r1 host;
          r3 = put_namelist r2 ciphers;
          r4 = put_namelist r3 ciphers;
          r5 = put_namelist r4 macs;
          r6 = put_namelist r5 macs;
          r7 = put_namelist r6 SERVER_COMP;
          r8 = put_namelist r7 SERVER_COMP;
          r9 = put_namelist r8 [];
          r10 = put_namelist r9 [];
          r11 = put_bool r10 False;
          r12 = put_u32 r11 0
      in \<lparr>cookie = ck, kex_algs = kex, host_key_algs = host, enc_c2s = ciphers, enc_s2c = ciphers,
          mac_c2s = macs, mac_s2c = macs, comp_c2s = [lit ''none''], comp_s2c = [lit ''none''],
          lang_c2s = [], lang_s2c = [], first_kex_packet_follows = False, raw = r12\<rparr>)"

definition kexinit_parse :: "bytes \<Rightarrow> kexinit result" where
  "kexinit_parse payload = fst (
     bindE p_u8 (\<lambda>t.
     if t \<noteq> SSH_MSG_KEXINIT then fail (Protocol ''not kexinit'') else
     bindE (p_take 16) (\<lambda>ck.
     bindE p_namelist (\<lambda>kx.
     bindE p_namelist (\<lambda>hk.
     bindE p_namelist (\<lambda>e1.
     bindE p_namelist (\<lambda>e2.
     bindE p_namelist (\<lambda>m1.
     bindE p_namelist (\<lambda>m2.
     bindE p_namelist (\<lambda>c1.
     bindE p_namelist (\<lambda>c2.
     bindE p_namelist (\<lambda>l1.
     bindE p_namelist (\<lambda>l2.
     bindE p_bool (\<lambda>follows.
     ret \<lparr>cookie = ck, kex_algs = kx, host_key_algs = hk, enc_c2s = e1, enc_s2c = e2,
          mac_c2s = m1, mac_s2c = m2, comp_c2s = c1, comp_s2c = c2, lang_c2s = l1, lang_s2c = l2,
          first_kex_packet_follows = follows, raw = payload\<rparr>))))))))))))) (parser_new payload))"

text \<open>\<open>negotiate\<close>: the first name of our list, in our order, that the peer also has.\<close>

fun negotiate :: "rstr list \<Rightarrow> rstr list \<Rightarrow> bool \<Rightarrow> rstr option" where
  "negotiate [] client skip_ext = None"
| "negotiate (s # server) client skip_ext =
     (if skip_ext \<and> (s = EXT_INFO_C \<or> s = EXT_INFO_S \<or> s = KEX_STRICT_C \<or> s = KEX_STRICT_S)
      then negotiate server client skip_ext
      else if s \<in> set client then Some s
      else negotiate server client skip_ext)"

definition list_has :: "rstr list \<Rightarrow> rstr \<Rightarrow> bool" where
  "list_has l name \<longleftrightarrow> name \<in> set l"

section \<open>Negotiation\<close>

definition skipped :: "bool \<Rightarrow> rstr \<Rightarrow> bool" where
  "skipped skip_ext s \<longleftrightarrow> skip_ext \<and> s \<in> {EXT_INFO_C, EXT_INFO_S, KEX_STRICT_C, KEX_STRICT_S}"

lemma negotiate_find:
  "negotiate server client sk = find (\<lambda>s. \<not> skipped sk s \<and> s \<in> set client) server"
  by (induction server client sk rule: negotiate.induct) (auto simp: skipped_def)

lemma negotiate_Some:
  "negotiate server client sk = Some a \<longleftrightarrow>
   (\<exists>pre post. server = pre @ a # post \<and> a \<in> set client \<and> \<not> skipped sk a \<and>
      (\<forall>s \<in> set pre. skipped sk s \<or> s \<notin> set client))"
  unfolding negotiate_find find_split_Some by (intro ex_cong1) auto

lemma negotiate_None:
  "negotiate server client sk = None \<longleftrightarrow> (\<forall>s \<in> set server. skipped sk s \<or> s \<notin> set client)"
  by (auto simp: negotiate_find find_None_iff)

section \<open>Proposals survive the wire\<close>

lemma kexinit_build_eq:
  "kexinit_build ck kex host ciphers macs =
     \<lparr>cookie = ck, kex_algs = kex, host_key_algs = host, enc_c2s = ciphers, enc_s2c = ciphers,
      mac_c2s = macs, mac_s2c = macs, comp_c2s = SERVER_COMP, comp_s2c = SERVER_COMP,
      lang_c2s = [], lang_s2c = [], first_kex_packet_follows = False,
      raw = put_u8 [] SSH_MSG_KEXINIT @ ck @ put_namelist [] kex @ put_namelist [] host @
        put_namelist [] ciphers @ put_namelist [] ciphers @ put_namelist [] macs @
        put_namelist [] macs @ put_namelist [] SERVER_COMP @ put_namelist [] SERVER_COMP @
        put_namelist [] [] @ put_namelist [] [] @ put_bool [] False @ put_u32 [] 0\<rparr>"
  by (simp add: kexinit_build_def Let_def put_u8_def put_u32_def put_bool_def wnames.put_Cons
      SERVER_COMP_def)

lemma p_take_yields: "length s = n \<Longrightarrow> yields (p_take n) (s @ r) s r"
  unfolding p_take_def by (rule p_slice_yields)

text \<open>
  Whatever the sixteen cookie bytes, and for all lists of plain names, parsing the proposal's raw
  bytes gives the proposal back, the raw bytes themselves included.
\<close>

lemma kexinit_parse_build:
  assumes "length ck = 16" and k: "namelist_ok kex" and h: "namelist_ok host"
    and c: "namelist_ok ciphers" and m: "namelist_ok macs"
  shows "kexinit_parse (raw (kexinit_build ck kex host ciphers macs)) =
    Inr (kexinit_build ck kex host ciphers macs)"
proof -
  have none: "namelist_ok SERVER_COMP" and nil: "namelist_ok []"
    by (simp_all add: namelist_ok_def lit_simps)
  note names = yields_bind [OF wnames.get_put]
  show ?thesis
    unfolding kexinit_parse_def kexinit_build_eq kexinit.select_convs
    by (rule yields_new, rule yields_bind [OF wu8.get_put [OF TrueI]],
        simp only: refl not_True_eq_False if_False,
        rule yields_bind [OF p_take_yields [OF assms(1)]],
        rule names [OF k], rule names [OF h], rule names [OF c], rule names [OF c],
        rule names [OF m], rule names [OF m], rule names [OF none], rule names [OF none],
        rule names [OF nil], rule names [OF nil], rule yields_bind [OF wbool.get_put [OF TrueI]],
        rule yields_ret)
qed

text \<open>Claim C30. Parsing the KEXINIT the program builds gives back every field of it.\<close>

theorem kexinit_roundtrip:
  assumes "length ck = 16" and "namelist_ok kex" and "namelist_ok host" and "namelist_ok ciphers" and "namelist_ok macs"
  shows "kexinit_parse (raw (kexinit_build ck kex host ciphers macs)) =
    Inr (kexinit_build ck kex host ciphers macs)"
  by (rule kexinit_parse_build [OF assms])

theorem kexinit_roundtrip_witness:
  "kexinit_parse (raw (kexinit_build (replicate 16 7) SERVER_KEX SERVER_HOST_KEY SERVER_CIPHERS SERVER_MACS)) =
   Inr (kexinit_build (replicate 16 7) SERVER_KEX SERVER_HOST_KEY SERVER_CIPHERS SERVER_MACS)"
  by (rule kexinit_roundtrip) (simp_all add: namelist_ok_def lit_simps)

text \<open>Claim C31. negotiate returns the first name of its own list, markers skipped where asked, that
  the peer also has, and nothing exactly when there is none.\<close>

theorem negotiate_outcome:
  "case negotiate server client sk of
     None \<Rightarrow> \<forall>s \<in> set server. skipped sk s \<or> s \<notin> set client
   | Some a \<Rightarrow> \<exists>pre post. server = pre @ a # post \<and> a \<in> set client \<and> \<not> skipped sk a \<and>
       (\<forall>s \<in> set pre. skipped sk s \<or> s \<notin> set client)"
  using negotiate_Some [of server client sk] negotiate_None [of server client sk]
  by (auto split: option.splits)

theorem negotiate_outcome_witness:
  "\<exists>pre post. SERVER_CIPHERS = pre @ lit ''aes256-gcm@openssh.com'' # post \<and> pre \<noteq> []"
proof -
  have "negotiate SERVER_CIPHERS [lit ''aes256-gcm@openssh.com''] False = Some (lit ''aes256-gcm@openssh.com'')"
    by (simp add: SERVER_CIPHERS_def lit_def)
  with negotiate_outcome [where server = SERVER_CIPHERS and client = "[lit ''aes256-gcm@openssh.com'']" and sk = False] show ?thesis
    by (auto simp: SERVER_CIPHERS_def lit_def Cons_eq_append_conv)
qed

end
