(* ===== verification/Crypto_Lib.thy ===== *)
theory Crypto_Lib
  imports Wire
begin

text \<open>
  The cryptographic libraries the program links (sha2, chacha20, poly1305, aes-gcm, subtle,
  x25519-dalek, ed25519-dalek, the system random generator) are parameters of the model: a record \<open>crypto\<close> of
  functions that every definition using them takes. A fixed-size output such as \<open>[u8; 32]\<close> is
  given by its bytes at each index and read off with \<open>arr\<close>, so its length is right by type, as it
  is in Rust. What the code relies on beyond the types is the hypotheses \<open>gcm_law\<close>, \<open>ct_law\<close> and \<open>dh_law\<close>. The
  theory also holds \<open>CipherKind\<close> of \<^verbatim>\<open>src/src/crypto/mod.rs\<close>.
\<close>

definition arr :: "nat \<Rightarrow> (nat \<Rightarrow> byte) \<Rightarrow> bytes" where
  "arr n f = map f [0..<n]"

lemma length_arr [simp]: "length (arr n f) = n"
  by (simp add: arr_def)

lemma nth_arr [simp]: "i < n \<Longrightarrow> arr n f ! i = f i"
  by (simp add: arr_def)

record crypto =
  sha256_fn :: "bytes \<Rightarrow> nat \<Rightarrow> byte"
  chacha_stream :: "bytes \<Rightarrow> bytes \<Rightarrow> nat \<Rightarrow> byte"
  poly1305_fn :: "bytes \<Rightarrow> bytes \<Rightarrow> nat \<Rightarrow> byte"
  gcm_encrypt :: "bytes \<Rightarrow> bytes \<Rightarrow> bytes \<Rightarrow> bytes \<Rightarrow> ((nat \<Rightarrow> byte) \<times> (nat \<Rightarrow> byte)) option"
  gcm_decrypt :: "bytes \<Rightarrow> bytes \<Rightarrow> bytes \<Rightarrow> bytes \<Rightarrow> bytes \<Rightarrow> (nat \<Rightarrow> byte) option"
  x25519_public :: "bytes \<Rightarrow> nat \<Rightarrow> byte"
  x25519_shared :: "bytes \<Rightarrow> bytes \<Rightarrow> nat \<Rightarrow> byte"
  ed25519_public :: "bytes \<Rightarrow> nat \<Rightarrow> byte"
  ed25519_sign :: "bytes \<Rightarrow> bytes \<Rightarrow> nat \<Rightarrow> byte"
  ct_eq :: "bytes \<Rightarrow> bytes \<Rightarrow> bool"
  os_rng :: "nat \<Rightarrow> byte"

text \<open>
  Arguments: \<open>chacha_stream key nonce\<close> is the key stream; \<open>poly1305_fn key msg\<close> the tag;
  \<open>gcm_encrypt key nonce aad plain\<close> the ciphertext and the tag, or nothing where the library
  returns an error; \<open>ct_eq\<close> the constant-time comparison of slices of \<open>subtle\<close>; \<open>os_rng i\<close> the \<open>i\<close>-th byte drawn from the system generator.
\<close>

definition sha256 :: "crypto \<Rightarrow> bytes \<Rightarrow> bytes" where
  "sha256 C m = arr 32 (sha256_fn C m)"

lemma length_sha256 [simp]: "length (sha256 C m) = 32"
  by (simp add: sha256_def)

text \<open>
  AES-GCM, detached and in place: encrypting a packet-sized buffer succeeds, and decrypting with
  the same key, nonce, associated data and the tag returned gives the plaintext back. The bound
  is far above any packet and far below the cipher's own limit.
\<close>

definition gcm_law :: "crypto \<Rightarrow> bool" where
  "gcm_law C \<longleftrightarrow>
     (\<forall>k n a p. length p < 2 ^ 32 \<longrightarrow>
        (\<exists>c t. gcm_encrypt C k n a p = Some (c, t) \<and>
           map_option (arr (length p)) (gcm_decrypt C k n a (arr (length p) c) (arr 16 t)) = Some p))"

text \<open>The constant-time comparison decides equality of byte slices.\<close>

definition ct_law :: "crypto \<Rightarrow> bool" where
  "ct_law C \<longleftrightarrow> (\<forall>a b. ct_eq C a b \<longleftrightarrow> a = b)"

text \<open>The key agreement: each end gets the same secret from its own key and the public key of the other.\<close>

definition dh_law :: "crypto \<Rightarrow> bool" where
  "dh_law C \<longleftrightarrow> (\<forall>a b. length a = 32 \<longrightarrow> length b = 32 \<longrightarrow>
     arr 32 (x25519_shared C a (arr 32 (x25519_public C b))) =
     arr 32 (x25519_shared C b (arr 32 (x25519_public C a))))"

abbreviation crypto_ok :: "crypto \<Rightarrow> bool" where
  "crypto_ok C \<equiv> gcm_law C \<and> ct_law C"

text \<open>
  The laws can hold: an instance with an identity cipher. It stands in for the libraries wherever a
  statement is applied at a concrete input.
\<close>

definition demo_crypto :: crypto where
  "demo_crypto =
     \<lparr>sha256_fn = (\<lambda>m i. of_nat (length m + i)), chacha_stream = (\<lambda>k n i. of_nat (length n + i)),
      poly1305_fn = (\<lambda>k m i. of_nat (length m)), gcm_encrypt = (\<lambda>k n a p. Some (\<lambda>i. p ! i, \<lambda>i. 0)),
      gcm_decrypt = (\<lambda>k n a c t. Some (\<lambda>i. c ! i)), x25519_public = (\<lambda>s i. of_nat i),
      x25519_shared = (\<lambda>s p i. 1), ed25519_public = (\<lambda>s i. of_nat i),
      ed25519_sign = (\<lambda>s m i. of_nat i), ct_eq = (=), os_rng = (\<lambda>i. of_nat i)\<rparr>"

lemma arr_nth [simp]: "arr (length p) (\<lambda>i. p ! i) = p"
  by (simp add: arr_def map_nth)

lemma demo_crypto_ok: "crypto_ok demo_crypto"
  by (auto simp: gcm_law_def ct_law_def demo_crypto_def)

lemma demo_crypto_dh: "dh_law demo_crypto"
  by (simp add: dh_law_def demo_crypto_def)

section \<open>Cipher kinds\<close>

definition MAX_PACKET :: nat where "MAX_PACKET = 256 * 1024"
definition TAG_LEN :: nat where "TAG_LEN = 16"

datatype cipher_kind = Clear | ChaCha20Poly1305 | Aes128Gcm | Aes256Gcm

definition ck_from_name :: "rstr \<Rightarrow> cipher_kind option" where
  "ck_from_name name =
     (if name = lit ''chacha20-poly1305@openssh.com'' then Some ChaCha20Poly1305
      else if name = lit ''aes128-gcm@openssh.com'' then Some Aes128Gcm
      else if name = lit ''aes256-gcm@openssh.com'' then Some Aes256Gcm
      else if name = lit ''none'' then Some Clear
      else None)"

fun ck_name :: "cipher_kind \<Rightarrow> rstr" where
  "ck_name Clear = lit ''none''"
| "ck_name ChaCha20Poly1305 = lit ''chacha20-poly1305@openssh.com''"
| "ck_name Aes128Gcm = lit ''aes128-gcm@openssh.com''"
| "ck_name Aes256Gcm = lit ''aes256-gcm@openssh.com''"

fun key_len :: "cipher_kind \<Rightarrow> nat" where
  "key_len Clear = 0"
| "key_len ChaCha20Poly1305 = 64"
| "key_len Aes128Gcm = 16"
| "key_len Aes256Gcm = 32"

fun iv_len :: "cipher_kind \<Rightarrow> nat" where
  "iv_len Clear = 0"
| "iv_len ChaCha20Poly1305 = 0"
| "iv_len Aes128Gcm = 12"
| "iv_len Aes256Gcm = 12"

fun tag_len :: "cipher_kind \<Rightarrow> nat" where
  "tag_len Clear = 0"
| "tag_len _ = TAG_LEN"

fun block_size :: "cipher_kind \<Rightarrow> nat" where
  "block_size Clear = 8"
| "block_size ChaCha20Poly1305 = 8"
| "block_size Aes128Gcm = 16"
| "block_size Aes256Gcm = 16"

fun encrypts_length :: "cipher_kind \<Rightarrow> bool" where
  "encrypts_length ChaCha20Poly1305 = True"
| "encrypts_length _ = False"

fun is_aead :: "cipher_kind \<Rightarrow> bool" where
  "is_aead Clear = False"
| "is_aead _ = True"

lemma ck_from_name_name [simp]: "ck_from_name (ck_name k) = Some k"
  by (cases k) (simp_all add: ck_from_name_def lit_def)

lemma ck_from_name_Some: "ck_from_name n = Some k \<longleftrightarrow> n = ck_name k"
proof
  show "ck_from_name n = Some k \<Longrightarrow> n = ck_name k"
    by (auto simp: ck_from_name_def split: if_splits)
qed simp

section \<open>The contract between the record layer and a cipher\<close>

text \<open>
  \<open>seal k seq pkt t\<close> turns a packet and the space for its tag into ciphertext, tag and next key
  state; \<open>unseal\<close> undoes it; \<open>declen\<close> reads the length field of a packet that has not been opened
  yet. Two ends that start from the same key state and count packets alike stay in step.
\<close>

locale record_cipher =
  fixes seal :: "'k \<Rightarrow> u32 \<Rightarrow> bytes \<Rightarrow> bytes \<Rightarrow> (bytes \<times> bytes \<times> 'k) result"
    and unseal :: "'k \<Rightarrow> u32 \<Rightarrow> bytes \<Rightarrow> bytes \<Rightarrow> (bytes \<times> 'k) result"
    and declen :: "'k \<Rightarrow> u32 \<Rightarrow> bytes \<Rightarrow> bytes"
    and tlen :: "'k \<Rightarrow> nat"
    and ok :: "'k \<Rightarrow> bool"
  assumes unseal_seal:
    "ok k \<Longrightarrow> 4 \<le> length pkt \<Longrightarrow> length pkt < 2 ^ 32 \<Longrightarrow> length t = tlen k \<Longrightarrow>
     \<exists>ct tag k'. seal k seq pkt t = Inr (ct, tag, k') \<and> unseal k seq ct tag = Inr (pkt, k') \<and>
       length ct = length pkt \<and> length tag = tlen k \<and>
       declen k seq (take 4 ct) = take 4 pkt \<and> ok k' \<and> tlen k' = tlen k"
begin

lemma unseal_sealed:
  assumes "ok k" and "4 \<le> length pkt" and "length pkt < 2 ^ 32" and "length t = tlen k"
    and "seal k seq pkt t = Inr (ct, tag, k')"
  shows "unseal k seq ct tag = Inr (pkt, k')" and "length ct = length pkt"
    and "length tag = tlen k" and "declen k seq (take 4 ct) = take 4 pkt" and "ok k'"
    and "tlen k' = tlen k"
  using unseal_seal [OF assms(1-4), of seq] assms(5) by auto

text \<open>A whole run of packets, sealed one after the other and opened in the same order.\<close>

fun seal_all :: "'k \<Rightarrow> u32 \<Rightarrow> bytes list \<Rightarrow> ((bytes \<times> bytes) list \<times> 'k) result" where
  "seal_all k seq [] = Inr ([], k)"
| "seal_all k seq (p # ps) =
     (case seal k seq p (replicate (tlen k) 0) of
        Inl e \<Rightarrow> Inl e
      | Inr (ct, tag, k') \<Rightarrow>
          (case seal_all k' (seq + 1) ps of
             Inl e \<Rightarrow> Inl e
           | Inr (cts, k'') \<Rightarrow> Inr ((ct, tag) # cts, k'')))"

fun unseal_all :: "'k \<Rightarrow> u32 \<Rightarrow> (bytes \<times> bytes) list \<Rightarrow> (bytes list \<times> 'k) result" where
  "unseal_all k seq [] = Inr ([], k)"
| "unseal_all k seq ((ct, tag) # cts) =
     (case unseal k seq ct tag of
        Inl e \<Rightarrow> Inl e
      | Inr (p, k') \<Rightarrow>
          (case unseal_all k' (seq + 1) cts of
             Inl e \<Rightarrow> Inl e
           | Inr (ps, k'') \<Rightarrow> Inr (p # ps, k'')))"

lemma unseal_all_seal_all:
  assumes "ok k" and "\<forall>p \<in> set ps. 4 \<le> length p \<and> length p < 2 ^ 32"
  shows "\<exists>cts k'. seal_all k seq ps = Inr (cts, k') \<and> unseal_all k seq cts = Inr (ps, k')"
  using assms
proof (induction ps arbitrary: k seq)
  case Nil
  then show ?case by simp
next
  case (Cons p ps)
  then obtain ct tag k' where 1: "seal k seq p (replicate (tlen k) 0) = Inr (ct, tag, k')"
    "unseal k seq ct tag = Inr (p, k')" "ok k'"
    using unseal_seal [of k p "replicate (tlen k) 0" seq] by auto
  moreover obtain cts k'' where "seal_all k' (seq + 1) ps = Inr (cts, k'')"
    "unseal_all k' (seq + 1) cts = Inr (ps, k'')"
    using Cons.IH [OF 1(3)] Cons.prems(2) by fastforce
  ultimately show ?case by simp
qed

end

end
