(* ===== verification/Chacha.thy ===== *)
theory Chacha
  imports Crypto_Lib
begin

text \<open>
  \<open>chacha20-poly1305@openssh.com\<close>, \<^verbatim>\<open>src/src/crypto/chacha20poly1305.rs\<close>. The stream cipher is the
  parameter \<open>chacha_stream\<close>; \<open>apply_keystream\<close> at a position xors the stream onto a buffer.
\<close>

record chacha =
  payload_key :: bytes
  length_key :: bytes

text \<open>\<open>StreamCipher::apply_keystream\<close> on a cipher that has produced \<open>pos\<close> bytes already.\<close>

definition apply_keystream :: "crypto \<Rightarrow> bytes \<Rightarrow> bytes \<Rightarrow> nat \<Rightarrow> bytes \<Rightarrow> bytes" where
  "apply_keystream C key nonce pos data =
     map (\<lambda>i. data ! i XOR chacha_stream C key nonce (pos + i)) [0..<length data]"

definition chacha_new :: "bytes \<Rightarrow> chacha" where
  "chacha_new key = \<lparr>payload_key = take 32 key, length_key = drop 32 key\<rparr>"

definition chacha_nonce :: "u32 \<Rightarrow> bytes" where
  "chacha_nonce seq = replicate 8 0 @ be_bytes32 seq"

definition chacha_decrypt_length :: "crypto \<Rightarrow> chacha \<Rightarrow> u32 \<Rightarrow> bytes \<Rightarrow> bytes" where
  "chacha_decrypt_length C c seq enc =
     apply_keystream C (length_key c) (chacha_nonce seq) 0 enc"

definition poly_key :: "crypto \<Rightarrow> chacha \<Rightarrow> u32 \<Rightarrow> bytes" where
  "poly_key C c seq =
     take 32 (apply_keystream C (payload_key c) (chacha_nonce seq) 0 (replicate 64 0))"

definition apply_payload :: "crypto \<Rightarrow> chacha \<Rightarrow> u32 \<Rightarrow> bytes \<Rightarrow> bytes" where
  "apply_payload C c seq data =
     apply_keystream C (payload_key c) (chacha_nonce seq) 64 data"

definition poly1305 :: "crypto \<Rightarrow> bytes \<Rightarrow> bytes \<Rightarrow> bytes" where
  "poly1305 C pk m = arr 16 (poly1305_fn C pk m)"

definition chacha_seal :: "crypto \<Rightarrow> chacha \<Rightarrow> u32 \<Rightarrow> bytes \<Rightarrow> bytes \<Rightarrow> (bytes \<times> bytes) result" where
  "chacha_seal C c seq pkt tag_out =
     (if length pkt < 4 \<or> length tag_out < 16 then Inl (Crypto ''chacha seal buf'')
      else
        let b1 = apply_keystream C (length_key c) (chacha_nonce seq) 0 (take 4 pkt) @ drop 4 pkt;
            b2 = take 4 b1 @ apply_payload C c seq (drop 4 b1);
            pk = poly_key C c seq;
            tag = poly1305 C pk b2
        in Inr (b2, tag @ drop 16 tag_out))"

definition chacha_open :: "crypto \<Rightarrow> chacha \<Rightarrow> u32 \<Rightarrow> bytes \<Rightarrow> bytes \<Rightarrow> bytes result" where
  "chacha_open C c seq pkt tag =
     (if length pkt < 4 \<or> length tag \<noteq> 16 then Inl (Crypto ''chacha open buf'')
      else
        let pk = poly_key C c seq;
            expected = poly1305 C pk pkt
        in
          if \<not> ct_eq C expected tag then Inl (Crypto ''chacha tag'')
          else
            let b1 = take 4 pkt @ apply_payload C c seq (drop 4 pkt);
                plain_len = chacha_decrypt_length C c seq (take 4 b1)
            in Inr (plain_len @ drop 4 b1))"

section \<open>Round trip\<close>

lemma length_apply_keystream [simp]: "length (apply_keystream C k n pos d) = length d"
  by (simp add: apply_keystream_def)

lemma apply_keystream_twice [simp]:
  "apply_keystream C k n pos (apply_keystream C k n pos d) = d"
  by (rule nth_equalityI) (auto simp: apply_keystream_def xor.assoc)

lemma length_apply_payload [simp]: "length (apply_payload C c seq d) = length d"
  by (simp add: apply_payload_def)

lemma length_poly1305 [simp]: "length (poly1305 C pk m) = 16"
  by (simp add: poly1305_def)

lemma chacha_open_seal:
  assumes "ct_law C" and "4 \<le> length pkt" and "length t = 16"
  shows "\<exists>ct tag. chacha_seal C c seq pkt t = Inr (ct, tag) \<and> chacha_open C c seq ct tag = Inr pkt \<and>
    length ct = length pkt \<and> length tag = 16 \<and>
    chacha_decrypt_length C c seq (take 4 ct) = take 4 pkt"
  using assms
  by (auto simp: chacha_seal_def chacha_open_def Let_def chacha_decrypt_length_def apply_payload_def
      min_def ct_law_def)

interpretation rc_chacha: record_cipher
  "\<lambda>c seq pkt t. map_sum id (\<lambda>(ct, tag). (ct, tag, c)) (chacha_seal C c seq pkt t)"
  "\<lambda>c seq ct tag. map_sum id (\<lambda>p. (p, c)) (chacha_open C c seq ct tag)"
  "chacha_decrypt_length C" "\<lambda>_. 16" "\<lambda>_. ct_law C" for C
proof
  fix c :: chacha and pkt t :: bytes and seq :: u32
  assume "ct_law C" and "4 \<le> length pkt" and "length t = 16"
  from chacha_open_seal [OF this, of c seq] obtain ct tag
    where "chacha_seal C c seq pkt t = Inr (ct, tag)" "chacha_open C c seq ct tag = Inr pkt"
      "length ct = length pkt" "length tag = 16"
      "chacha_decrypt_length C c seq (take 4 ct) = take 4 pkt"
    by blast
  then show "\<exists>ct tag k'.
      map_sum id (\<lambda>(ct, tag). (ct, tag, c)) (chacha_seal C c seq pkt t) = Inr (ct, tag, k') \<and>
      map_sum id (\<lambda>p. (p, c)) (chacha_open C c seq ct tag) = Inr (pkt, k') \<and>
      length ct = length pkt \<and> length tag = 16 \<and>
      chacha_decrypt_length C c seq (take 4 ct) = take 4 pkt \<and> ct_law C \<and> (16 :: nat) = 16"
    using \<open>ct_law C\<close> by (intro exI [of _ ct] exI [of _ tag] exI [of _ c]) simp
qed

text \<open>
  What opens is authentic: the tag presented is the one-time authenticator of exactly the bytes
  that arrived, the encrypted length field included. Distinct sequence numbers use distinct nonces.
\<close>

text \<open>Claim C25. ChaCha20-Poly1305 opening accepts a packet only when its tag is the Poly1305 tag of
  the bytes that arrived, the encrypted length included, under the key of that packet number,
  and keeps the length.\<close>

theorem chacha_open_authentic:
  "ct_law C \<Longrightarrow> chacha_open C c seq pkt tag = Inr p \<Longrightarrow>
   tag = poly1305 C (poly_key C c seq) pkt \<and> length p = length pkt"
  by (auto simp: chacha_open_def Let_def chacha_decrypt_length_def ct_law_def
      split: if_splits)

lemma chacha_nonce_inj: "chacha_nonce a = chacha_nonce b \<longleftrightarrow> a = b"
proof
  assume "chacha_nonce a = chacha_nonce b"
  then have "be_bytes32 a = be_bytes32 b" by (simp add: chacha_nonce_def)
  then show "a = b" by (metis be_bytes32_nth)
qed simp

theorem chacha_open_authentic_witness:
  "\<exists>p. chacha_open demo_crypto (chacha_new (replicate 64 1)) 0 (replicate 12 0)
       (poly1305 demo_crypto (poly_key demo_crypto (chacha_new (replicate 64 1)) 0) (replicate 12 0)) = Inr p \<and>
     length p = 12"
proof -
  let ?c = "chacha_new (replicate 64 1)"
  let ?t = "poly1305 demo_crypto (poly_key demo_crypto ?c 0) (replicate 12 0)"
  have "ct_eq demo_crypto ?t ?t" by (simp add: demo_crypto_def)
  moreover have "length ?t = TAG_LEN" by (simp add: poly1305_def TAG_LEN_def)
  ultimately obtain p where p: "chacha_open demo_crypto ?c 0 (replicate 12 0) ?t = Inr p"
    by (auto simp: chacha_open_def Let_def)
  with chacha_open_authentic [OF _ p] demo_crypto_ok show ?thesis by auto
qed

end
