(* ===== verification/Aes_Gcm.thy ===== *)
theory Aes_Gcm
  imports Crypto_Lib
begin

text \<open>
  \<open>aes128-gcm@openssh.com\<close> and \<open>aes256-gcm@openssh.com\<close>, \<^verbatim>\<open>src/src/crypto/aesgcm.rs\<close>. The block
  cipher is the parameter pair \<open>gcm_encrypt\<close>/\<open>gcm_decrypt\<close>; the packet counter in the last eight
  bytes of the IV is the program's own, and is shown to be a 64-bit counter.
\<close>

datatype inner = InnerAes128 bytes | InnerAes256 bytes

record aes_gcm =
  aes_kind :: cipher_kind
  inner :: inner
  iv :: bytes

fun inner_key :: "inner \<Rightarrow> bytes" where
  "inner_key (InnerAes128 k) = k"
| "inner_key (InnerAes256 k) = k"

definition aes_new :: "cipher_kind \<Rightarrow> bytes \<Rightarrow> bytes \<Rightarrow> aes_gcm result" where
  "aes_new kind key iv0 =
     (if length iv0 \<noteq> 12 then Inl (Crypto ''aes-gcm iv'')
      else case kind of
        Aes128Gcm \<Rightarrow>
          if length key \<noteq> 16 then Inl (Crypto ''aes128 key'')
          else Inr \<lparr>aes_kind = kind, inner = InnerAes128 key, iv = iv0\<rparr>
      | Aes256Gcm \<Rightarrow>
          if length key \<noteq> 32 then Inl (Crypto ''aes256 key'')
          else Inr \<lparr>aes_kind = kind, inner = InnerAes256 key, iv = iv0\<rparr>
      | _ \<Rightarrow> Inl (Crypto ''not aes-gcm''))"

text \<open>The loop of \<open>inc_iv\<close> over the indices still to visit, with its \<open>break\<close>.\<close>

fun inc_iv_loop :: "nat list \<Rightarrow> bytes \<Rightarrow> bytes" where
  "inc_iv_loop [] v = v"
| "inc_iv_loop (i # is) v =
     (let w = v[i := v ! i + 1] in if w ! i \<noteq> 0 then w else inc_iv_loop is w)"

definition inc_iv :: "aes_gcm \<Rightarrow> aes_gcm" where
  "inc_iv a = a\<lparr>iv := inc_iv_loop (rev [4..<12]) (iv a)\<rparr>"

definition aes_seal ::
  "crypto \<Rightarrow> aes_gcm \<Rightarrow> u32 \<Rightarrow> bytes \<Rightarrow> bytes \<Rightarrow> (bytes \<times> bytes \<times> aes_gcm) result" where
  "aes_seal C a seq pkt tag_out =
     (if length pkt < 4 \<or> length tag_out < 16 then Inl (Crypto ''gcm seal buf'')
      else case gcm_encrypt C (inner_key (inner a)) (iv a) (take 4 pkt) (drop 4 pkt) of
        None \<Rightarrow> Inl (Crypto ''gcm seal'')
      | Some (body, tag) \<Rightarrow>
          Inr (take 4 pkt @ arr (length pkt - 4) body, arr 16 tag @ drop 16 tag_out, inc_iv a))"

definition aes_open ::
  "crypto \<Rightarrow> aes_gcm \<Rightarrow> u32 \<Rightarrow> bytes \<Rightarrow> bytes \<Rightarrow> (bytes \<times> aes_gcm) result" where
  "aes_open C a seq pkt tag =
     (if length pkt < 4 \<or> length tag \<noteq> 16 then Inl (Crypto ''gcm open buf'')
      else case gcm_decrypt C (inner_key (inner a)) (iv a) (take 4 pkt) (drop 4 pkt) tag of
        None \<Rightarrow> Inl (Crypto ''gcm tag'')
      | Some body \<Rightarrow> Inr (take 4 pkt @ arr (length pkt - 4) body, inc_iv a))"

section \<open>Round trip\<close>

interpretation rc_aes: record_cipher "aes_seal C" "aes_open C" "\<lambda>_ _ enc. enc" "\<lambda>_. 16"
  "\<lambda>_. gcm_law C" for C
proof
  fix a :: aes_gcm and pkt t :: bytes and seq :: u32
  assume "gcm_law C" and len: "4 \<le> length pkt" "length pkt < 2 ^ 32" "length t = 16"
  have law: "\<exists>c t. gcm_encrypt C k n a p = Some (c, t) \<and>
      map_option (arr (length p)) (gcm_decrypt C k n a (arr (length p) c) (arr 16 t)) = Some p"
    if "length p < 2 ^ 32" for k n a p
    using \<open>gcm_law C\<close> that unfolding gcm_law_def by blast
  obtain c g b where "gcm_encrypt C (inner_key (inner a)) (iv a) (take 4 pkt) (drop 4 pkt) = Some (c, g)"
    and "gcm_decrypt C (inner_key (inner a)) (iv a) (take 4 pkt) (arr (length pkt - 4) c) (arr 16 g)
      = Some b" and "arr (length pkt - 4) b = drop 4 pkt"
    using law [of "drop 4 pkt"] len(2) by fastforce
  with len show "\<exists>ct tag k'. aes_seal C a seq pkt t = Inr (ct, tag, k') \<and>
      aes_open C a seq ct tag = Inr (pkt, k') \<and> length ct = length pkt \<and> length tag = 16 \<and>
      take 4 ct = take 4 pkt \<and> gcm_law C \<and> (16 :: nat) = 16"
    using \<open>gcm_law C\<close> by (simp add: aes_seal_def aes_open_def)
qed

section \<open>The packet counter\<close>

lemma be_val_snoc: "be_val (bs @ [b]) = be_val bs * 256 + unat b"
  by (simp add: be_val_def)

lemma be_val_less: "be_val bs < 256 ^ length bs"
proof (induction bs rule: rev_induct)
  case Nil
  then show ?case by simp
next
  case (snoc b bs)
  then show ?case using unat_byte_bound [of b] by (simp add: be_val_snoc)
qed

lemma unat_byte_Suc: "(b :: byte) + 1 \<noteq> 0 \<Longrightarrow> unat (b + 1) = Suc (unat b)"
  using unatSuc [of b] by (simp add: add.commute)

lemma unat_byte_wrap: "(b :: byte) + 1 = 0 \<longleftrightarrow> unat b = 255"
proof -
  have "b + 1 = 0 \<longleftrightarrow> b = - 1" by (simp add: eq_neg_iff_add_eq_0)
  also have "\<dots> \<longleftrightarrow> unat b = 255"
    by (simp add: word_unat_eq_iff unsigned_minus_1_eq_mask mask_eq_exp_minus_1)
  finally show ?thesis .
qed

lemma length_inc_iv_loop [simp]: "length (inc_iv_loop is v) = length v"
  by (induction "is" v rule: inc_iv_loop.induct) (auto simp: Let_def)

text \<open>
  The segment from \<open>k\<close> to \<open>m\<close>, read as a big-endian number, is incremented modulo its size; the
  bytes on both sides stay.
\<close>

lemma inc_iv_loop_segment:
  "m \<le> length v \<Longrightarrow> k \<le> m \<Longrightarrow>
   be_val (drop k (take m (inc_iv_loop (rev [k..<m]) v))) =
     (be_val (drop k (take m v)) + 1) mod 256 ^ (m - k) \<and>
   take k (inc_iv_loop (rev [k..<m]) v) = take k v \<and>
   drop m (inc_iv_loop (rev [k..<m]) v) = drop m v"
proof (induction m arbitrary: v)
  case 0
  then show ?case by simp
next
  case (Suc m)
  show ?case
  proof (cases "k = Suc m")
    case True
    then show ?thesis by simp
  next
    case False
    with Suc.prems have km: "k \<le> m" by simp
    let ?w = "v[m := v ! m + 1]"
    have seg: "drop k (take (Suc m) u) = drop k (take m u) @ [u ! m]" if "length u = length v" for u
      using that Suc.prems km by (simp add: take_Suc_conv_app_nth)
    have loop: "inc_iv_loop (rev [k..<Suc m]) v =
        (if v ! m + 1 \<noteq> 0 then ?w else inc_iv_loop (rev [k..<m]) ?w)"
      using km Suc.prems by (simp add: Let_def)
    have low: "be_val (drop k (take m v)) < 256 ^ (m - k)"
      using be_val_less [of "drop k (take m v)"] Suc.prems by simp
    show ?thesis
    proof (cases "v ! m + 1 = 0")
      case False
      have "unat (v ! m + 1) = Suc (unat (v ! m))" using False by (rule unat_byte_Suc)
      moreover have "be_val (drop k (take (Suc m) v)) + 1 < 256 ^ (Suc m - k)"
        using low unat_byte_wrap [of "v ! m"] unat_byte_bound [of "v ! m"] False km
        by (simp add: seg be_val_snoc Suc_diff_le)
      ultimately show ?thesis
        using False Suc.prems km by (simp add: loop seg be_val_snoc)
    next
      case True
      have IH: "be_val (drop k (take m (inc_iv_loop (rev [k..<m]) ?w))) =
          (be_val (drop k (take m v)) + 1) mod 256 ^ (m - k)"
        "take k (inc_iv_loop (rev [k..<m]) ?w) = take k v"
        "drop m (inc_iv_loop (rev [k..<m]) ?w) = drop m ?w"
        using Suc.IH [of ?w] Suc.prems km by auto
      have "inc_iv_loop (rev [k..<m]) ?w ! m = ?w ! m"
        using IH(3) Suc.prems by (metis Cons_nth_drop_Suc Suc_le_lessD length_inc_iv_loop
            length_list_update list.inject)
      then have last: "inc_iv_loop (rev [k..<m]) ?w ! m = 0" using True Suc.prems by simp
      have "drop (Suc m) (inc_iv_loop (rev [k..<m]) ?w) = drop (Suc m) v"
        using arg_cong [OF IH(3), of "drop 1"] by simp
      moreover have "(be_val (drop k (take m v)) * 256 + 255 + 1) mod 256 ^ (Suc m - k) =
          (be_val (drop k (take m v)) + 1) mod 256 ^ (m - k) * 256"
        using km mult_mod_right [of 256 "be_val (drop k (take m v)) + 1" "256 ^ (m - k)"]
        by (simp add: Suc_diff_le algebra_simps)
      ultimately show ?thesis
        using True IH last unat_byte_wrap [of "v ! m"] Suc.prems km
        by (simp add: loop seg be_val_snoc)
    qed
  qed
qed

definition iv_counter :: "aes_gcm \<Rightarrow> nat" where
  "iv_counter a = be_val (drop 4 (iv a))"

lemma inc_iv_counter:
  assumes "length (iv a) = 12"
  shows "iv_counter (inc_iv a) = (iv_counter a + 1) mod 2 ^ 64 \<and>
    take 4 (iv (inc_iv a)) = take 4 (iv a) \<and> length (iv (inc_iv a)) = 12"
proof -
  let ?w = "inc_iv_loop (rev [4..<12]) (iv a)"
  have "take 12 ?w = ?w" and "take 12 (iv a) = iv a" using assms by (simp_all del: upt_rec_numeral)
  then have "be_val (drop 4 ?w) = (be_val (drop 4 (iv a)) + 1) mod 256 ^ (12 - 4) \<and>
      take 4 ?w = take 4 (iv a)"
    using inc_iv_loop_segment [of 12 "iv a" 4] assms by (simp del: upt_rec_numeral)
  then show ?thesis
    unfolding iv_counter_def inc_iv_def
    using assms by (simp del: upt_rec_numeral)
qed

lemma inc_iv_funpow:
  assumes "length (iv a) = 12"
  shows "iv_counter ((inc_iv ^^ n) a) = (iv_counter a + n) mod 2 ^ 64 \<and>
    take 4 (iv ((inc_iv ^^ n) a)) = take 4 (iv a) \<and> length (iv ((inc_iv ^^ n) a)) = 12"
proof (induction n)
  case 0
  have "iv_counter a < 2 ^ 64"
    using be_val_less [of "drop 4 (iv a)"] assms by (simp add: iv_counter_def)
  with assms show ?case by simp
next
  case (Suc n)
  then show ?case using inc_iv_counter [of "(inc_iv ^^ n) a"] by (simp add: mod_Suc_eq)
qed

text \<open>Claim C26. The AES-GCM invocation counter gives a different nonce to each of any 2^64 successive
  packets of a key.\<close>

theorem inc_iv_distinct:
  assumes "length (iv a) = 12" and "i < j" and "j - i < 2 ^ 64"
  shows "iv ((inc_iv ^^ i) a) \<noteq> iv ((inc_iv ^^ j) a)"
proof
  assume "iv ((inc_iv ^^ i) a) = iv ((inc_iv ^^ j) a)"
  then have "(iv_counter a + i) mod 2 ^ 64 = (iv_counter a + j) mod 2 ^ 64"
    using inc_iv_funpow [OF assms(1), of i] inc_iv_funpow [OF assms(1), of j]
    by (simp add: iv_counter_def)
  then have "2 ^ 64 dvd (iv_counter a + j) - (iv_counter a + i)"
    using mod_eq_dvd_iff_nat [of "iv_counter a + i" "iv_counter a + j" "2 ^ 64"] assms(2) by simp
  then have "(2 :: nat) ^ 64 dvd j - i" by simp
  then show False using assms(2,3) by (auto dest: dvd_imp_le)
qed

theorem inc_iv_distinct_witness:
  "iv ((inc_iv ^^ 0) \<lparr>aes_kind = Aes128Gcm, inner = InnerAes128 [], iv = replicate 12 255\<rparr>) \<noteq>
   iv ((inc_iv ^^ 1) \<lparr>aes_kind = Aes128Gcm, inner = InnerAes128 [], iv = replicate 12 255\<rparr>)"
  by (rule inc_iv_distinct) simp_all

end
