(* ===== verification/Kdf.thy ===== *)
theory Kdf
  imports Crypto_Lib
begin

text \<open>Key derivation of RFC 4253 section 7.2, \<^verbatim>\<open>src/src/crypto/kdf.rs\<close>.\<close>

text \<open>The \<open>while key.len() < out.len()\<close> loop: each round appends one digest.\<close>

function extend_key :: "crypto \<Rightarrow> bytes \<Rightarrow> bytes \<Rightarrow> nat \<Rightarrow> bytes \<Rightarrow> bytes" where
  "extend_key C k_mpint h n key =
     (if length key < n then extend_key C k_mpint h n (key @ sha256 C (k_mpint @ h @ key)) else key)"
  by pat_completeness auto
termination
  by (relation "measure (\<lambda>(C, k_mpint, h, n, key). n - length key)") auto

declare extend_key.simps [simp del]

text \<open>\<open>derive_block\<close> fills a slice of \<open>n\<close> bytes.\<close>

definition derive_block :: "crypto \<Rightarrow> bytes \<Rightarrow> bytes \<Rightarrow> bytes \<Rightarrow> byte \<Rightarrow> nat \<Rightarrow> bytes" where
  "derive_block C k_mpint h session_id letter n =
     take n (extend_key C k_mpint h n (sha256 C (k_mpint @ h @ [letter] @ session_id)))"

record derived_keys =
  send_key :: bytes
  send_iv :: bytes
  recv_key :: bytes
  recv_iv :: bytes

definition derive_keys ::
  "crypto \<Rightarrow> bytes \<Rightarrow> bytes \<Rightarrow> bytes \<Rightarrow> cipher_kind \<Rightarrow> bool \<Rightarrow> derived_keys" where
  "derive_keys C k_mpint h session_id cipher is_server =
     (let kl = key_len cipher;
          il = iv_len cipher;
          iv_need = (if il = 0 then 8 else il);
          (send_k, recv_k, send_i, recv_i) =
            (if is_server then (0x44, 0x43, 0x42, 0x41) else (0x43, 0x44, 0x41, 0x42));
          sk = (if kl > 0 then derive_block C k_mpint h session_id send_k kl else replicate kl 0);
          rk = (if kl > 0 then derive_block C k_mpint h session_id recv_k kl else replicate kl 0);
          si = derive_block C k_mpint h session_id send_i iv_need;
          ri = derive_block C k_mpint h session_id recv_i iv_need
      in \<lparr>send_key = sk, send_iv = (if il = 0 then [] else si),
          recv_key = rk, recv_iv = (if il = 0 then [] else ri)\<rparr>)"

lemma extend_key_prefix: "\<exists>s. extend_key C k h n key = key @ s"
proof (induction C k h n key rule: extend_key.induct)
  case (1 C k h n key)
  show ?case
  proof (cases "length key < n")
    case True
    with 1 obtain s where "extend_key C k h n (key @ sha256 C (k @ h @ key)) =
        (key @ sha256 C (k @ h @ key)) @ s" by blast
    with True show ?thesis by (simp add: extend_key.simps [of C k h n key])
  next
    case False
    then show ?thesis by (simp add: extend_key.simps [of C k h n key])
  qed
qed

lemma length_extend_key: "n \<le> length (extend_key C k h n key)"
proof (induction C k h n key rule: extend_key.induct)
  case (1 C k h n key)
  then show ?case by (cases "length key < n") (simp_all add: extend_key.simps [of C k h n key])
qed

lemma length_derive_block [simp]: "length (derive_block C k h sid letter n) = n"
  unfolding derive_block_def length_take by (rule min_absorb2) (rule length_extend_key)

text \<open>Asking for fewer bytes gives a prefix of what asking for more gives.\<close>

lemma extend_key_mono:
  "m \<le> n \<Longrightarrow> take m (extend_key C k h n key) = take m (extend_key C k h m key)"
proof (induction C k h m key rule: extend_key.induct)
  case (1 C k h m key)
  show ?case
  proof (cases "length key < m")
    case True
    with 1 show ?thesis by (simp add: extend_key.simps [of C k h n key] extend_key.simps [of C k h m key])
  next
    case False
    then show ?thesis
      using extend_key_prefix [of C k h n key] by (auto simp: extend_key.simps [of C k h m key])
  qed
qed

lemma derive_block_prefix:
  "m \<le> n \<Longrightarrow> take m (derive_block C k h sid l n) = derive_block C k h sid l m"
  unfolding derive_block_def take_take min.absorb1 by (rule extend_key_mono)

text \<open>What one end sends with, the other receives with.\<close>

lemma derive_keys_mirror:
  "send_key (derive_keys C k h sid c True) = recv_key (derive_keys C k h sid c False) \<and>
   send_iv (derive_keys C k h sid c True) = recv_iv (derive_keys C k h sid c False) \<and>
   recv_key (derive_keys C k h sid c True) = send_key (derive_keys C k h sid c False) \<and>
   recv_iv (derive_keys C k h sid c True) = send_iv (derive_keys C k h sid c False)"
  by (simp add: derive_keys_def Let_def)

end
