(* ===== verification/Cipher_Suite.thy ===== *)
theory Cipher_Suite
  imports Chacha Aes_Gcm Kdf
begin

text \<open>
  \<open>DirectionKeys\<close>, the host key and \<open>padding_len\<close> of \<^verbatim>\<open>src/src/crypto/mod.rs\<close>: one direction of the
  transport is in the clear, under ChaCha20-Poly1305 or under AES-GCM.
\<close>

section \<open>Keys of one direction\<close>

datatype direction_keys = DClear | DChaCha chacha | DAes aes_gcm

definition dk_from_material :: "cipher_kind \<Rightarrow> bytes \<Rightarrow> bytes \<Rightarrow> direction_keys result" where
  "dk_from_material kind key iv0 =
     (case kind of
        Clear \<Rightarrow> Inr DClear
      | ChaCha20Poly1305 \<Rightarrow>
          if length key \<noteq> 64 then Inl (Crypto ''chacha key len'') else Inr (DChaCha (chacha_new key))
      | _ \<Rightarrow> map_sum id DAes (aes_new kind key iv0))"

fun dk_kind :: "direction_keys \<Rightarrow> cipher_kind" where
  "dk_kind DClear = Clear"
| "dk_kind (DChaCha _) = ChaCha20Poly1305"
| "dk_kind (DAes a) = aes_kind a"

fun dk_decrypt_length :: "crypto \<Rightarrow> direction_keys \<Rightarrow> u32 \<Rightarrow> bytes \<Rightarrow> bytes" where
  "dk_decrypt_length C DClear seq enc = enc"
| "dk_decrypt_length C (DAes _) seq enc = enc"
| "dk_decrypt_length C (DChaCha c) seq enc = chacha_decrypt_length C c seq enc"

fun dk_open ::
  "crypto \<Rightarrow> direction_keys \<Rightarrow> u32 \<Rightarrow> bytes \<Rightarrow> bytes \<Rightarrow> (bytes \<times> direction_keys) result" where
  "dk_open C DClear seq pkt tag =
     (if tag \<noteq> [] then Inl (Crypto ''unexpected tag'') else Inr (pkt, DClear))"
| "dk_open C (DChaCha c) seq pkt tag = map_sum id (\<lambda>p. (p, DChaCha c)) (chacha_open C c seq pkt tag)"
| "dk_open C (DAes a) seq pkt tag = map_sum id (\<lambda>(p, b). (p, DAes b)) (aes_open C a seq pkt tag)"

fun dk_seal ::
  "crypto \<Rightarrow> direction_keys \<Rightarrow> u32 \<Rightarrow> bytes \<Rightarrow> bytes \<Rightarrow> (bytes \<times> bytes \<times> direction_keys) result" where
  "dk_seal C DClear seq pkt tag_out = Inr (pkt, tag_out, DClear)"
| "dk_seal C (DChaCha c) seq pkt tag_out =
     map_sum id (\<lambda>(p, t). (p, t, DChaCha c)) (chacha_seal C c seq pkt tag_out)"
| "dk_seal C (DAes a) seq pkt tag_out =
     map_sum id (\<lambda>(p, t, b). (p, t, DAes b)) (aes_seal C a seq pkt tag_out)"

section \<open>Host key\<close>

text \<open>A signing key is its 32-byte seed; \<open>SigningKey::to_bytes\<close> returns the seed.\<close>

record host_key =
  signing :: bytes

definition hk_from_seed :: "bytes \<Rightarrow> host_key" where
  "hk_from_seed seed = \<lparr>signing = seed\<rparr>"

definition hk_seed :: "host_key \<Rightarrow> bytes" where
  "hk_seed k = signing k"

definition hk_public_bytes :: "crypto \<Rightarrow> host_key \<Rightarrow> bytes" where
  "hk_public_bytes C k = arr 32 (ed25519_public C (signing k))"

definition hk_public_blob :: "crypto \<Rightarrow> host_key \<Rightarrow> bytes" where
  "hk_public_blob C k = put_bytes (put_str [] (lit ''ssh-ed25519'')) (hk_public_bytes C k)"

definition hk_sign :: "crypto \<Rightarrow> host_key \<Rightarrow> bytes \<Rightarrow> bytes" where
  "hk_sign C k data =
     put_bytes (put_str [] (lit ''ssh-ed25519'')) (arr 64 (ed25519_sign C (signing k) data))"

section \<open>Base64\<close>

definition b64_table :: rstr where
  "b64_table = lit ''ABCDEFGHIJKLMNOPQRSTUVWXYZabcdefghijklmnopqrstuvwxyz0123456789+/''"

definition b64_char :: "byte \<Rightarrow> byte" where
  "b64_char i = b64_table ! unat i"

text \<open>The loop body takes up to three bytes; the missing ones read as zero and print \<open>=\<close>.\<close>

fun b64 :: "bytes \<Rightarrow> rstr" where
  "b64 [] = []"
| "b64 [b0] = [b64_char (drop_bit 2 b0), b64_char (push_bit 4 (b0 AND 3)), 0x3D, 0x3D]"
| "b64 [b0, b1] =
     [b64_char (drop_bit 2 b0), b64_char (push_bit 4 (b0 AND 3) OR drop_bit 4 b1),
      b64_char (push_bit 2 (b1 AND 15)), 0x3D]"
| "b64 (b0 # b1 # b2 # bs) =
     [b64_char (drop_bit 2 b0), b64_char (push_bit 4 (b0 AND 3) OR drop_bit 4 b1),
      b64_char (push_bit 2 (b1 AND 15) OR drop_bit 6 b2), b64_char (b2 AND 0x3F)] @ b64 bs"

definition openssh_public_line :: "crypto \<Rightarrow> host_key \<Rightarrow> rstr \<Rightarrow> rstr" where
  "openssh_public_line C k comment =
     lit ''ssh-ed25519 '' @ b64 (hk_public_blob C k) @ lit '' '' @ comment"

section \<open>Padding\<close>

definition padding_len :: "nat \<Rightarrow> nat \<Rightarrow> bool \<Rightarrow> nat" where
  "padding_len payload_len block0 length_is_aad =
     (let block = max block0 8;
          need = (if length_is_aad then 1 + payload_len else 4 + 1 + payload_len);
          pad = block - need mod block
      in if pad < 4 then pad + block else pad)"

lemma pad_to_block:
  fixes m :: nat
  assumes "0 < m"
  shows "(n + (m - n mod m)) mod m = 0"
proof -
  have "(n + (m - n mod m)) mod m = (n mod m + (m - n mod m)) mod m"
    by (rule mod_add_left_eq [symmetric])
  also have "n mod m + (m - n mod m) = m"
    using assms by (simp add: less_imp_le)
  finally show ?thesis by simp
qed

lemma padding_len_bounds:
  "4 \<le> padding_len n b aad \<and> padding_len n b aad < max b 8 + 4 \<and>
   ((if aad then 1 else 5) + n + padding_len n b aad) mod max b 8 = 0"
proof -
  define m where "m = max b 8"
  define need where "need = (if aad then 1 else 5) + n"
  define pad where "pad = m - need mod m"
  have m: "8 \<le> m" by (simp add: m_def)
  have pad: "0 < pad" "pad \<le> m" using m by (simp_all add: pad_def)
  have eq: "padding_len n b aad = (if pad < 4 then pad + m else pad)"
  proof -
    have "(if aad then 1 + n else 4 + 1 + n) = need" by (simp add: need_def)
    then show ?thesis unfolding padding_len_def Let_def by (simp only: pad_def m_def)
  qed
  have "(need + pad) mod m = 0" unfolding pad_def using m by (intro pad_to_block) simp
  moreover have "(need + (pad + m)) mod m = (need + pad) mod m" by (simp flip: add.assoc)
  ultimately have "(need + padding_len n b aad) mod m = 0" by (auto simp: eq)
  moreover have "4 \<le> padding_len n b aad" and "padding_len n b aad < m + 4"
    using pad m by (auto simp: eq)
  ultimately show ?thesis by (simp add: need_def m_def)
qed

lemma block_size_max: "max (block_size k) 8 = block_size k"
  by (cases k) simp_all

lemma block_size_le: "block_size k \<le> 16"
  by (cases k) simp_all

lemma padding_len_kind:
  "4 \<le> padding_len n (block_size k) a \<and> padding_len n (block_size k) a < 20"
  using padding_len_bounds [of n "block_size k" a] block_size_le [of k] by (simp add: block_size_max)

section \<open>The record cipher of a direction\<close>

text \<open>
  The key states \<open>from_material\<close> can build (the kind an AES state records is one of the AES
  kinds) over libraries that keep their laws.
\<close>

definition dk_ok :: "crypto \<Rightarrow> direction_keys \<Rightarrow> bool" where
  "dk_ok C k \<longleftrightarrow> crypto_ok C \<and> (case k of DAes a \<Rightarrow> aes_kind a \<in> {Aes128Gcm, Aes256Gcm} | _ \<Rightarrow> True)"

lemma aes_kind_inc_iv [simp]: "aes_kind (inc_iv a) = aes_kind a"
  by (simp add: inc_iv_def)

lemma dk_from_material_ok:
  "crypto_ok C \<Longrightarrow> dk_from_material kind key iv0 = Inr k \<Longrightarrow> dk_ok C k \<and> dk_kind k = kind"
  by (auto simp: dk_from_material_def dk_ok_def aes_new_def split: cipher_kind.splits if_splits)

interpretation rc_dk: record_cipher "dk_seal C" "dk_open C" "dk_decrypt_length C"
  "\<lambda>k. tag_len (dk_kind k)" "dk_ok C" for C
proof
  fix k :: direction_keys and pkt t :: bytes and seq :: u32
  assume ok: "dk_ok C k" and len: "4 \<le> length pkt" "length pkt < 2 ^ 32"
    and t: "length t = tag_len (dk_kind k)"
  show "\<exists>ct tag k'. dk_seal C k seq pkt t = Inr (ct, tag, k') \<and> dk_open C k seq ct tag = Inr (pkt, k') \<and>
      length ct = length pkt \<and> length tag = tag_len (dk_kind k) \<and>
      dk_decrypt_length C k seq (take 4 ct) = take 4 pkt \<and> dk_ok C k' \<and>
      tag_len (dk_kind k') = tag_len (dk_kind k)"
  proof (cases k)
    case DClear
    with t ok show ?thesis by (simp add: dk_ok_def)
  next
    case (DChaCha c)
    with t have "length t = 16" by (simp add: TAG_LEN_def)
    from chacha_open_seal [OF _ len(1) this, of C c seq] DChaCha ok show ?thesis
      by (auto simp: TAG_LEN_def dk_ok_def)
  next
    case (DAes a)
    with ok have a: "gcm_law C" "tag_len (aes_kind a) = 16" by (auto simp: dk_ok_def TAG_LEN_def)
    with t DAes have "length t = 16" by simp
    from rc_aes.unseal_seal [OF a(1) len this, of a seq] obtain ct tag a' where
      s: "aes_seal C a seq pkt t = Inr (ct, tag, a')" "aes_open C a seq ct tag = Inr (pkt, a')"
      "length ct = length pkt" "length tag = 16" "take 4 ct = take 4 pkt" by auto
    from s(1) have "aes_kind a' = aes_kind a"
      by (auto simp: aes_seal_def split: if_splits option.splits)
    with s a DAes ok show ?thesis by (auto simp: dk_ok_def)
  qed
qed

text \<open>Sealing never fails on a packet of the size the record layer builds, and keeps the kind.\<close>

lemma dk_seal_kind: "dk_seal C k seq pkt t = Inr (ct, tag, k') \<Longrightarrow> dk_kind k' = dk_kind k"
  by (cases k) (auto simp: aes_seal_def chacha_seal_def Let_def split: if_splits option.splits)

lemma dk_seal_length:
  "dk_seal C k seq pkt t = Inr (ct, tag, k') \<Longrightarrow> length ct = length pkt \<and> length tag = length t"
  by (cases k) (auto simp: aes_seal_def chacha_seal_def Let_def split: if_splits option.splits)

lemma dk_open_no_panic: "dk_open C k seq pkt tag = Inl e \<Longrightarrow> e \<noteq> Panic"
  by (cases k)
    (auto simp: aes_open_def chacha_open_def Let_def map_sum_def split: if_splits option.splits sum.splits)

text \<open>Opening works in place.\<close>

lemma length_dk_decrypt_length [simp]: "length (dk_decrypt_length C k seq b) = length b"
  by (cases k) (simp_all add: chacha_decrypt_length_def)

lemma dk_open_length: "dk_open C k seq pkt tag = Inr (p, k') \<Longrightarrow> length p = length pkt"
  by (cases k)
    (auto simp: aes_open_def chacha_open_def Let_def map_sum_def chacha_decrypt_length_def
      split: if_splits option.splits sum.splits)

section \<open>Properties\<close>

text \<open>Claim C24. For each cipher a direction can use, a run of packets sealed one after the other and
  opened in the same order from the same key state gives the packets back and the same final key
  state.\<close>

theorem direction_roundtrip:
  assumes "dk_ok C k" and "\<forall>p \<in> set ps. 4 \<le> length p \<and> length p < 2 ^ 32"
  shows "\<exists>cts k'. rc_dk.seal_all C k seq ps = Inr (cts, k') \<and> rc_dk.unseal_all C k seq cts = Inr (ps, k')"
  using assms by (rule rc_dk.unseal_all_seal_all)

theorem direction_roundtrip_witness:
  "\<exists>cts k'. rc_dk.seal_all demo_crypto (DChaCha (chacha_new (replicate 64 1))) 3 [[0, 0, 0, 1, 9], [0, 0, 0, 0]] =
     Inr (cts, k') \<and>
   rc_dk.unseal_all demo_crypto (DChaCha (chacha_new (replicate 64 1))) 3 cts =
     Inr ([[0, 0, 0, 1, 9], [0, 0, 0, 0]], k')"
  by (rule direction_roundtrip) (simp_all add: dk_ok_def demo_crypto_ok)

text \<open>Claim C36. The padding is at least 4 and below 20 bytes and fills the packet to a multiple of
  the block size, the length field not counted under an AEAD cipher.\<close>

theorem padding_well_formed:
  "4 \<le> padding_len n (block_size k) (is_aead k) \<and> padding_len n (block_size k) (is_aead k) < 20 \<and>
   ((if is_aead k then 1 else 5) + n + padding_len n (block_size k) (is_aead k)) mod block_size k = 0"
  using padding_len_bounds [of n "block_size k" "is_aead k"] padding_len_kind [of n k "is_aead k"]
  by (simp add: block_size_max)

end
