(* ===== verification/Config.thy ===== *)
theory Config
  imports Cipher_Suite
begin

text \<open>
  Configuration, \<^verbatim>\<open>src/src/config.rs\<close>: server and client settings, the password check and the text
  format of the host key file; and the \<open>--user\<close> argument of \<^verbatim>\<open>src/src/main.rs\<close>. Reading and writing
  the file is in theory \<open>Startup\<close>.
\<close>

section \<open>Settings\<close>

record user =
  u_name :: rstr
  u_password :: rstr

record server_config =
  sc_ident :: rstr
  sc_host_key :: host_key
  sc_users :: "user list"
  sc_window :: u32
  sc_max_packet :: u32
  sc_max_channels :: u32
  sc_max_auth_fails :: u32
  sc_rekey_after_bytes :: u64
  sc_rekey_after_packets :: u32
  sc_keepalive :: nat
  sc_connect_timeout :: nat
  sc_write_buf_soft :: nat
  sc_write_buf_hard :: nat

definition server_config_new :: "host_key \<Rightarrow> user list \<Rightarrow> server_config" where
  "server_config_new hk us =
     \<lparr>sc_ident = lit ''SSH-2.0-OpenSSH_9.6'', sc_host_key = hk, sc_users = us,
      sc_window = 2 * 1024 * 1024, sc_max_packet = 32 * 1024, sc_max_channels = 256,
      sc_max_auth_fails = 3, sc_rekey_after_bytes = 1024 * 1024 * 1024,
      sc_rekey_after_packets = push_bit 31 1 - 1, sc_keepalive = 30, sc_connect_timeout = 15,
      sc_write_buf_soft = 256 * 1024, sc_write_buf_hard = 1024 * 1024\<rparr>"

record client_config =
  cc_ident :: rstr
  cc_username :: rstr
  cc_password :: rstr
  cc_window :: u32
  cc_max_packet :: u32
  cc_write_buf_soft :: nat
  cc_write_buf_hard :: nat
  cc_rekey_after_bytes :: u64
  cc_rekey_after_packets :: u32

definition client_config_new :: "rstr \<Rightarrow> rstr \<Rightarrow> client_config" where
  "client_config_new name password =
     \<lparr>cc_ident = lit ''SSH-2.0-ssproxy_client_0.1'', cc_username = name, cc_password = password,
      cc_window = 2 * 1024 * 1024, cc_max_packet = 32 * 1024, cc_write_buf_soft = 256 * 1024,
      cc_write_buf_hard = 1024 * 1024, cc_rekey_after_bytes = 1024 * 1024 * 1024,
      cc_rekey_after_packets = push_bit 31 1 - 1\<rparr>"

text \<open>The loop of \<open>check_password\<close> visits every user and ors the outcomes into \<open>ok\<close>.\<close>

fun check_users :: "crypto \<Rightarrow> user list \<Rightarrow> rstr \<Rightarrow> rstr \<Rightarrow> bool \<Rightarrow> bool" where
  "check_users C [] name password ok = ok"
| "check_users C (u # us) name password ok =
     (let user_match = ct_eq C (u_name u) name;
          pw_match = ct_eq C (u_password u) password
      in check_users C us name password (ok \<or> user_match \<and> pw_match))"

definition check_password :: "crypto \<Rightarrow> server_config \<Rightarrow> rstr \<Rightarrow> rstr \<Rightarrow> bool" where
  "check_password C cfg name password = check_users C (sc_users cfg) name password False"

text \<open>\<open>--user name:password\<close>: the text before the first colon, and all that follows it.\<close>

fun split_once :: "byte \<Rightarrow> rstr \<Rightarrow> (rstr \<times> rstr) option" where
  "split_once c [] = None"
| "split_once c (x # xs) =
     (if x = c then Some ([], xs) else map_option (\<lambda>(a, b). (x # a, b)) (split_once c xs))"

definition user_of_arg :: "rstr \<Rightarrow> user" where
  "user_of_arg s =
     (let (n, p) = (case split_once 0x3A s of None \<Rightarrow> (s, []) | Some np \<Rightarrow> np)
      in \<lparr>u_name = n, u_password = p\<rparr>)"

definition users_of_args :: "rstr list \<Rightarrow> user list" where
  "users_of_args args =
     (if args = [] then [\<lparr>u_name = lit ''proxy'', u_password = lit ''proxy''\<rparr>]
      else map user_of_arg args)"

section \<open>The host key file\<close>

definition hex_digit :: "byte \<Rightarrow> byte" where
  "hex_digit d = (if d < 10 then 0x30 + d else 0x61 + (d - 10))"

text \<open>\<open>format!("{b:02x}")\<close> and the body \<open>save_host_key\<close> writes.\<close>

definition hex_byte :: "byte \<Rightarrow> rstr" where
  "hex_byte b = [hex_digit (drop_bit 4 b), hex_digit (b AND 15)]"

definition host_key_text :: "host_key \<Rightarrow> rstr" where
  "host_key_text k =
     lit ''ssproxy-ed25519-seed-v1'' @ [10] @ concat (map hex_byte (hk_seed k)) @ [10]"

text \<open>\<open>str::lines\<close>, \<open>str::trim\<close> (the white space of Unicode, in UTF-8) and \<open>u8::from_str_radix\<close>.\<close>

definition strip_cr :: "rstr \<Rightarrow> rstr" where
  "strip_cr s = (if s \<noteq> [] \<and> last s = 13 then butlast s else s)"

definition rust_lines :: "rstr \<Rightarrow> rstr list" where
  "rust_lines s =
     (let ps = split_on 10 s
      in map strip_cr (butlast ps) @ (if last ps = [] then [] else [last ps]))"

definition ws3 :: "byte \<Rightarrow> byte \<Rightarrow> byte \<Rightarrow> bool" where
  "ws3 a b c \<longleftrightarrow>
     a = 0xE1 \<and> b = 0x9A \<and> c = 0x80
     \<or> a = 0xE2 \<and> b = 0x80 \<and> (0x80 \<le> c \<and> c \<le> 0x8A \<or> c = 0xA8 \<or> c = 0xA9 \<or> c = 0xAF)
     \<or> a = 0xE2 \<and> b = 0x81 \<and> c = 0x9F
     \<or> a = 0xE3 \<and> b = 0x80 \<and> c = 0x80"

definition ws2 :: "byte \<Rightarrow> byte \<Rightarrow> bool" where
  "ws2 a b \<longleftrightarrow> a = 0xC2 \<and> (b = 0x85 \<or> b = 0xA0)"

definition ws1 :: "byte \<Rightarrow> bool" where
  "ws1 a \<longleftrightarrow> a = 32 \<or> 9 \<le> a \<and> a \<le> 13"

fun trim_start :: "rstr \<Rightarrow> rstr" where
  "trim_start (a # b # c # s) =
     (if ws1 a then trim_start (b # c # s)
      else if ws2 a b then trim_start (c # s)
      else if ws3 a b c then trim_start s
      else a # b # c # s)"
| "trim_start [a, b] = (if ws1 a then trim_start [b] else if ws2 a b then [] else [a, b])"
| "trim_start [a] = (if ws1 a then [] else [a])"
| "trim_start [] = []"

text \<open>\<open>trim_end_rev\<close> trims the end of a string given backwards.\<close>

fun trim_end_rev :: "rstr \<Rightarrow> rstr" where
  "trim_end_rev (c # b # a # s) =
     (if ws1 c then trim_end_rev (b # a # s)
      else if ws2 b c then trim_end_rev (a # s)
      else if ws3 a b c then trim_end_rev s
      else c # b # a # s)"
| "trim_end_rev [c, b] = (if ws1 c then trim_end_rev [b] else if ws2 b c then [] else [c, b])"
| "trim_end_rev [c] = (if ws1 c then [] else [c])"
| "trim_end_rev [] = []"

definition trim :: "rstr \<Rightarrow> rstr" where
  "trim s = rev (trim_end_rev (rev (trim_start s)))"

definition char_boundary :: "rstr \<Rightarrow> nat \<Rightarrow> bool" where
  "char_boundary s i \<longleftrightarrow> i = 0 \<or> i = length s \<or> i < length s \<and> \<not> cont (s ! i)"

definition hex_val :: "byte \<Rightarrow> byte option" where
  "hex_val c =
     (if 0x30 \<le> c \<and> c \<le> 0x39 then Some (c - 0x30)
      else if 0x61 \<le> c \<and> c \<le> 0x66 then Some (c - 0x61 + 10)
      else if 0x41 \<le> c \<and> c \<le> 0x46 then Some (c - 0x41 + 10)
      else None)"

text \<open>On two bytes: a leading plus sign is skipped, every other byte must be a digit.\<close>

definition from_hex2 :: "byte \<Rightarrow> byte \<Rightarrow> byte option" where
  "from_hex2 a b =
     (if a = 0x2B then hex_val b
      else case (hex_val a, hex_val b) of (Some x, Some y) \<Rightarrow> Some (x * 16 + y) | _ \<Rightarrow> None)"

text \<open>
  The loop of \<open>parse_host_key\<close> over the indices still to read. Slicing a string inside a
  character panics.
\<close>

fun parse_seed :: "rstr \<Rightarrow> nat list \<Rightarrow> bytes result" where
  "parse_seed hex [] = Inr []"
| "parse_seed hex (i # is) =
     (if \<not> char_boundary hex (i * 2) \<or> \<not> char_boundary hex (i * 2 + 2) then Inl Panic
      else case from_hex2 (hex ! (i * 2)) (hex ! (i * 2 + 1)) of
        None \<Rightarrow> Inl (Protocol ''bad host key hex'')
      | Some b \<Rightarrow> map_sum id (\<lambda>bs. b # bs) (parse_seed hex is))"

definition parse_host_key :: "rstr \<Rightarrow> host_key result" where
  "parse_host_key text =
     (let ls = rust_lines text;
          header = (case ls of [] \<Rightarrow> [] | l # _ \<Rightarrow> l)
      in if trim header \<noteq> lit ''ssproxy-ed25519-seed-v1''
         then Inl (Protocol ''unsupported host key format'')
         else
           let hex = trim (case ls of _ # l # _ \<Rightarrow> l | _ \<Rightarrow> [])
           in if length hex \<noteq> 64 then Inl (Protocol ''bad host key seed'')
              else map_sum id hk_from_seed (parse_seed hex [0..<32]))"

section \<open>The password check\<close>

lemma check_users_iff:
  "ct_law C \<Longrightarrow> check_users C us name password ok \<longleftrightarrow>
   ok \<or> (\<exists>u \<in> set us. u_name u = name \<and> u_password u = password)"
  by (induction us arbitrary: ok) (auto simp: Let_def ct_law_def)

lemma check_password_iff:
  "ct_law C \<Longrightarrow> check_password C cfg name password \<longleftrightarrow>
   (\<exists>u \<in> set (sc_users cfg). u_name u = name \<and> u_password u = password)"
  by (simp add: check_password_def check_users_iff)

lemma split_once_Some:
  "split_once c s = Some (a, b) \<longleftrightarrow> s = a @ c # b \<and> c \<notin> set a"
proof (induction s arbitrary: a)
  case Nil
  then show ?case by simp
next
  case (Cons x s)
  then show ?case by (cases a) (auto split: prod.splits)
qed

lemma user_of_arg_colon:
  "0x3A \<notin> set n \<Longrightarrow> user_of_arg (n @ 0x3A # p) = \<lparr>u_name = n, u_password = p\<rparr>"
  using split_once_Some [of "0x3A" "n @ 0x3A # p" n p] by (simp add: user_of_arg_def)

section \<open>The host key file round trip\<close>

lemma hex_val_digit: "d < 16 \<Longrightarrow> hex_val (hex_digit d) = Some d"
proof -
  have all: "\<forall>n \<in> set [0..<16]. hex_val (hex_digit (of_nat n)) = Some (of_nat n)"
    by (simp add: hex_val_def hex_digit_def upt_rec)
  assume "d < 16"
  then have "unat d \<in> set [0..<16]" by (simp add: word_less_nat_alt)
  with all have "hex_val (hex_digit (of_nat (unat d))) = Some (of_nat (unat d))" by blast
  then show ?thesis by simp
qed

lemma hex_digit_ascii: "d < 16 \<Longrightarrow> hex_digit d < 0x80 \<and> \<not> ws1 (hex_digit d) \<and> hex_digit d \<noteq> 0x2B"
proof -
  have all: "\<forall>n \<in> set [0..<16]. hex_digit (of_nat n) < 0x80 \<and> \<not> ws1 (hex_digit (of_nat n)) \<and>
      hex_digit (of_nat n) \<noteq> 0x2B"
    by (simp add: ws1_def hex_digit_def upt_rec)
  assume "d < 16"
  then have "unat d \<in> set [0..<16]" by (simp add: word_less_nat_alt)
  with all have "hex_digit (of_nat (unat d)) < 0x80 \<and> \<not> ws1 (hex_digit (of_nat (unat d))) \<and>
      hex_digit (of_nat (unat d)) \<noteq> 0x2B" by blast
  then show ?thesis by simp
qed

lemma high_nibble: "drop_bit 4 (b :: byte) < 16"
proof -
  have "unat (drop_bit 4 b) = drop_bit 4 (unat b)" by (rule unat_drop_bit_eq)
  also have "\<dots> = unat b div 16" by (simp add: drop_bit_eq_div)
  also have "\<dots> < 16" using unat_byte_bound [of b] by simp
  finally show ?thesis by (simp add: word_less_nat_alt)
qed

lemma low_nibble: "(b :: byte) AND 15 < 16"
proof -
  have "b AND 15 \<le> 15" by (rule word_and_le1)
  then show ?thesis by (simp add: word_le_nat_alt word_less_nat_alt)
qed

lemma nibbles: "drop_bit 4 b * 16 + (b AND 15) = (b :: byte)"
proof -
  have "drop_bit 4 b * 16 = push_bit 4 (drop_bit 4 b)" by (simp add: push_bit_eq_mult mult.commute)
  moreover have "b AND 15 = take_bit 4 b" by (simp add: take_bit_eq_mask mask_eq_exp_minus_1)
  ultimately show ?thesis by (simp add: bits_ident)
qed

lemma from_hex2_byte: "from_hex2 (hex_digit (drop_bit 4 b)) (hex_digit (b AND 15)) = Some b"
  using hex_digit_ascii [OF high_nibble [of b]] hex_val_digit [OF high_nibble [of b]]
    hex_val_digit [OF low_nibble [of b]]
  by (simp add: from_hex2_def nibbles)

lemma length_hex [simp]: "length (concat (map hex_byte bs)) = 2 * length bs"
  by (induction bs) (simp_all add: hex_byte_def)

lemma nth_hex:
  "i < length bs \<Longrightarrow>
   concat (map hex_byte bs) ! (i * 2) = hex_digit (drop_bit 4 (bs ! i)) \<and>
   concat (map hex_byte bs) ! (i * 2 + 1) = hex_digit (bs ! i AND 15)"
proof (induction bs arbitrary: i)
  case Nil
  then show ?case by simp
next
  case (Cons b bs)
  then show ?case by (cases i) (simp_all add: hex_byte_def)
qed

lemma set_hex: "x \<in> set (concat (map hex_byte bs)) \<Longrightarrow> x < 0x80 \<and> \<not> ws1 x \<and> x \<noteq> 10 \<and> x \<noteq> 13"
proof -
  assume "x \<in> set (concat (map hex_byte bs))"
  then have "x < 0x80 \<and> \<not> ws1 x"
    using hex_digit_ascii [OF high_nibble] hex_digit_ascii [OF low_nibble]
    by (auto simp: hex_byte_def)
  moreover have "ws1 10" and "ws1 13" by (simp_all add: ws1_def)
  ultimately show ?thesis by blast
qed

lemma cont_ascii [simp]: "x < 0x80 \<Longrightarrow> \<not> cont x"
  by (auto simp: cont_def simp flip: not_less)

lemma char_boundary_ascii: "\<forall>x \<in> set s. x < 0x80 \<Longrightarrow> i \<le> length s \<Longrightarrow> char_boundary s i"
  by (auto simp: char_boundary_def le_less)

lemma parse_seed_hex:
  assumes "\<forall>i \<in> set is. i < length bs"
  shows "parse_seed (concat (map hex_byte bs)) is = Inr (map (\<lambda>i. bs ! i) is)"
  using assms
proof (induction "is")
  case Nil
  then show ?case by simp
next
  case (Cons i "is")
  then have "i < length bs" by simp
  moreover have "char_boundary (concat (map hex_byte bs)) j" if "j \<le> 2 * length bs" for j
    using that set_hex by (intro char_boundary_ascii) auto
  ultimately show ?case
    using Cons nth_hex [of i bs] by (simp add: from_hex2_byte)
qed

text \<open>Strings of ASCII characters that neither start nor end with white space are their own trim.\<close>

lemma trim_start_ascii: "s \<noteq> [] \<Longrightarrow> \<not> ws1 (hd s) \<Longrightarrow> hd s < 0x80 \<Longrightarrow> trim_start s = s"
  by (cases s rule: trim_start.cases) (auto simp: ws2_def ws3_def)

lemma trim_end_rev_ascii: "s \<noteq> [] \<Longrightarrow> \<not> ws1 (hd s) \<Longrightarrow> hd s < 0x80 \<Longrightarrow> trim_end_rev s = s"
  by (cases s rule: trim_end_rev.cases) (auto simp: ws2_def ws3_def)

lemma trim_ascii:
  assumes "s \<noteq> []" and "\<forall>x \<in> {hd s, last s}. \<not> ws1 x \<and> x < 0x80"
  shows "trim s = s"
  using assms by (simp add: trim_def trim_start_ascii trim_end_rev_ascii hd_rev)

lemma rust_lines_two:
  assumes "10 \<notin> set a" and "10 \<notin> set b"
  shows "rust_lines (a @ 10 # b @ [10]) = [strip_cr a, strip_cr b]"
  using assms by (simp add: rust_lines_def Let_def split_on_sep)

lemma parse_host_key_text:
  assumes "length (signing k) = 32"
  shows "parse_host_key (host_key_text k) = Inr k"
proof -
  let ?hdr = "lit ''ssproxy-ed25519-seed-v1''" and ?hex = "concat (map hex_byte (signing k))"
  have len: "length ?hex = 64" using assms by simp
  then have "?hex \<noteq> []" by (metis list.size(3) zero_neq_numeral)
  note hex = this len
  have ok: "x < 0x80 \<and> \<not> ws1 x \<and> x \<noteq> 10 \<and> x \<noteq> 13" if "x \<in> {hd ?hex, last ?hex}" for x
    using that hex(1) set_hex by (metis (no_types) hd_in_set insertE last_in_set singletonD)
  have "10 \<notin> set ?hex" using set_hex [of 10] by blast
  moreover have "10 \<notin> set ?hdr" by (simp add: lit_def)
  ultimately have "rust_lines (host_key_text k) = [strip_cr ?hdr, strip_cr ?hex]"
    using rust_lines_two [of ?hdr ?hex] by (simp add: host_key_text_def hk_seed_def)
  moreover have "strip_cr ?hdr = ?hdr" by (simp add: strip_cr_def lit_def)
  moreover have "strip_cr ?hex = ?hex" using ok by (simp add: strip_cr_def)
  moreover have "trim ?hdr = ?hdr" by (rule trim_ascii) (simp_all add: lit_def ws1_def)
  moreover have "trim ?hex = ?hex" using ok hex(1) by (intro trim_ascii) blast+
  moreover have "parse_seed ?hex [0..<32] = Inr (signing k)"
    using parse_seed_hex [of "[0..<32]" "signing k"] assms map_nth [of "signing k"] by simp
  ultimately show ?thesis
    using hex by (simp add: parse_host_key_def hk_from_seed_def del: upt_rec_numeral)
qed

end
