(* ===== verification/Channel.thy ===== *)
theory Channel
  imports Prelude
begin

text \<open>
  Channels and the channel table, \<^verbatim>\<open>src/src/core/channel.rs\<close>. A channel holds its flow-control
  windows, the queue of inbound data not yet consumed and the outbound data waiting for window or
  for the end of a key exchange. The table is a vector of slots with a stack of free indices; its
  contract is the locale \<open>id_table\<close>, a finite map from ids to channels of bounded size, and the slot
  vector is shown to implement it.
\<close>

section \<open>Channels\<close>

datatype channel_kind = Session | DirectTcpIp

record channel =
  local_id :: u32
  remote_id :: "u32 option"
  ch_kind :: channel_kind
  send_window :: u32
  recv_window :: u32
  recv_max :: u32
  max_remote_packet :: u32
  max_local_packet :: u32
  in_q :: "bytes list"
  in_q_bytes :: nat
  pending_out :: "bytes list"
  pending_out_bytes :: nat
  got_eof :: bool
  sent_eof :: bool
  wire_eof :: bool
  got_close :: bool
  sent_close :: bool
  wire_close :: bool
  open_confirmed :: bool
  ch_host :: "rstr option"
  ch_port :: u32

definition channel_new :: "u32 \<Rightarrow> channel_kind \<Rightarrow> u32 \<Rightarrow> u32 \<Rightarrow> u32 \<Rightarrow> u32 \<Rightarrow> channel" where
  "channel_new lid kind win max_pkt swin max_rpkt =
     \<lparr>local_id = lid, remote_id = None, ch_kind = kind, send_window = swin, recv_window = win,
      recv_max = win, max_remote_packet = max_rpkt, max_local_packet = max_pkt, in_q = [],
      in_q_bytes = 0, pending_out = [], pending_out_bytes = 0, got_eof = False, sent_eof = False,
      wire_eof = False, got_close = False, sent_close = False, wire_close = False,
      open_confirmed = False, ch_host = None, ch_port = 0\<rparr>"

definition push_in :: "bytes \<Rightarrow> (channel, unit) act" where
  "push_in data ch =
     (let n = of_nat (length data) :: u32 in
      if n > recv_window ch then (Inl (Protocol ''channel window exceeded''), ch)
      else (Inr (), ch\<lparr>recv_window := recv_window ch - n, in_q_bytes := in_q_bytes ch + length data,
                       in_q := in_q ch @ [data]\<rparr>))"

definition pop_in :: "channel \<Rightarrow> bytes option \<times> channel" where
  "pop_in ch =
     (case in_q ch of
        [] \<Rightarrow> (None, ch)
      | b # q \<Rightarrow> (Some b, ch\<lparr>in_q := q, in_q_bytes := in_q_bytes ch - length b\<rparr>))"

definition window_adjust_amount :: "channel \<Rightarrow> u32" where
  "window_adjust_amount ch =
     (let used = of_nat (in_q_bytes ch) :: u32;
          allowed = sat_sub_u32 (recv_max ch) used
      in if allowed \<le> recv_window ch then 0
         else
           let add = allowed - recv_window ch
           in if add \<ge> recv_max ch div 8 \<or> recv_window ch < recv_max ch div 4 then add else 0)"

definition ch_outbound_allowance :: "channel \<Rightarrow> nat" where
  "ch_outbound_allowance ch =
     (if \<not> open_confirmed ch \<or> sent_eof ch \<or> sent_close ch then 0
      else min (unat (send_window ch)) (unat (max_remote_packet ch)))"

definition fully_dead :: "channel \<Rightarrow> bool" where
  "fully_dead ch \<longleftrightarrow> got_close ch \<and> sent_close ch"

section \<open>The table\<close>

record channel_table =
  slots :: "channel option list"
  tbl_free :: "u32 list"
  max_channels :: u32

definition table_new :: "u32 \<Rightarrow> channel_table" where
  "table_new n = \<lparr>slots = [], tbl_free = [], max_channels = n\<rparr>"

text \<open>\<open>slots[id] = Some(ch)\<close>, which panics where the index is out of range.\<close>

definition put_slot :: "u32 \<Rightarrow> channel \<Rightarrow> (channel_table, u32) act" where
  "put_slot i ch t =
     (if unat i < length (slots t)
      then (Inr i, t\<lparr>slots := (slots t)[unat i := Some (ch\<lparr>local_id := i\<rparr>)]\<rparr>)
      else (Inl Panic, t))"

definition ct_alloc :: "channel \<Rightarrow> (channel_table, u32) act" where
  "ct_alloc ch t =
     (if tbl_free t \<noteq> [] then
        put_slot (last (tbl_free t)) ch (t\<lparr>tbl_free := butlast (tbl_free t)\<rparr>)
      else if (of_nat (length (slots t)) :: u32) \<ge> max_channels t then
        (Inl (Protocol ''too many channels''), t)
      else put_slot (of_nat (length (slots t))) ch (t\<lparr>slots := slots t @ [None]\<rparr>))"

text \<open>\<open>slots.get(id)\<close> followed by \<open>and_then(as_ref)\<close>.\<close>

definition ct_look :: "channel_table \<Rightarrow> u32 \<Rightarrow> channel option" where
  "ct_look t i = (if unat i < length (slots t) then slots t ! unat i else None)"

definition ct_get :: "channel_table \<Rightarrow> u32 \<Rightarrow> channel result" where
  "ct_get t i = ok_or (Protocol ''no such channel'') (ct_look t i)"

text \<open>\<open>get_mut\<close> and a mutation through the reference it returns.\<close>

definition ct_update :: "u32 \<Rightarrow> (channel \<Rightarrow> channel) \<Rightarrow> (channel_table, unit) act" where
  "ct_update i f t =
     (case ct_look t i of
        None \<Rightarrow> (Inl (Protocol ''no such channel''), t)
      | Some ch \<Rightarrow> (Inr (), t\<lparr>slots := (slots t)[unat i := Some (f ch)]\<rparr>))"

text \<open>The same for a fallible method of the channel.\<close>

definition ct_update_act :: "u32 \<Rightarrow> (channel, 'a) act \<Rightarrow> (channel_table, 'a) act" where
  "ct_update_act i m t =
     (case ct_look t i of
        None \<Rightarrow> (Inl (Protocol ''no such channel''), t)
      | Some ch \<Rightarrow> (case m ch of (r, ch') \<Rightarrow> (r, t\<lparr>slots := (slots t)[unat i := Some ch']\<rparr>)))"

fun first_remote :: "u32 \<Rightarrow> channel option list \<Rightarrow> u32 option" where
  "first_remote r [] = None"
| "first_remote r (None # s) = first_remote r s"
| "first_remote r (Some c # s) = (if remote_id c = Some r then Some (local_id c) else first_remote r s)"

definition by_remote :: "channel_table \<Rightarrow> u32 \<Rightarrow> u32 option" where
  "by_remote t r = first_remote r (slots t)"

definition ct_free :: "u32 \<Rightarrow> channel_table \<Rightarrow> channel_table" where
  "ct_free i t =
     (case ct_look t i of
        None \<Rightarrow> t
      | Some _ \<Rightarrow> t\<lparr>slots := (slots t)[unat i := None], tbl_free := tbl_free t @ [i]\<rparr>)"

definition iter_ids :: "channel_table \<Rightarrow> u32 list" where
  "iter_ids t = map local_id (List.map_filter id (slots t))"

definition len_active :: "channel_table \<Rightarrow> nat" where
  "len_active t = length (filter (\<lambda>s. s \<noteq> None) (slots t))"

section \<open>Flow control on one channel\<close>

text \<open>
  The byte counters agree with the queues; what is queued plus what the peer may still send never
  exceeds the window we announced; the half-close flags are in order.
\<close>

definition ch_inv :: "channel \<Rightarrow> bool" where
  "ch_inv ch \<longleftrightarrow>
     in_q_bytes ch = sum_list (map length (in_q ch)) \<and>
     pending_out_bytes ch = sum_list (map length (pending_out ch)) \<and>
     in_q_bytes ch + unat (recv_window ch) \<le> unat (recv_max ch) \<and>
     (wire_eof ch \<longrightarrow> sent_eof ch) \<and> (wire_close ch \<longrightarrow> sent_close ch) \<and>
     (sent_close ch \<longrightarrow> sent_eof ch) \<and> (got_close ch \<longrightarrow> got_eof ch)"

lemma ch_inv_new: "ch_inv (channel_new lid k w mp sw mrp)"
  by (simp add: ch_inv_def channel_new_def)

text \<open>
  \<open>push_in\<close> compares the length as a \<open>u32\<close>, so a chunk of four gibibytes or more would wrap; the
  record layer bounds a payload by \<open>MAX_PACKET\<close>, far below.
\<close>

lemma push_in_ok:
  assumes "length data < 2 ^ 32"
  shows "push_in data ch = (Inr (), ch') \<longleftrightarrow>
    length data \<le> unat (recv_window ch) \<and>
    ch' = ch\<lparr>recv_window := recv_window ch - of_nat (length data),
      in_q_bytes := in_q_bytes ch + length data, in_q := in_q ch @ [data]\<rparr>"
  using unat_of_nat_u32 [OF assms]
  by (auto simp: push_in_def Let_def word_less_nat_alt not_less)

lemma push_in_inv:
  assumes "ch_inv ch" and "length data < 2 ^ 32"
  shows "ch_inv (snd (push_in data ch))"
proof -
  have "unat (recv_window ch - of_nat (length data)) = unat (recv_window ch) - length data"
    if "\<not> recv_window ch < of_nat (length data)"
    using that unat_of_nat_u32 [OF assms(2)] by (simp add: unat_sub_u32 not_less)
  then show ?thesis
    using assms unat_of_nat_u32 [OF assms(2)]
    by (auto simp: push_in_def Let_def ch_inv_def word_less_nat_alt not_less)
qed

lemma pop_in_inv: "ch_inv ch \<Longrightarrow> ch_inv (snd (pop_in ch))"
  by (auto simp: pop_in_def ch_inv_def split: list.splits)

text \<open>An adjustment tops the window up to exactly what the queue leaves free, or is nothing.\<close>

lemma window_adjust_amount_cases:
  assumes "ch_inv ch"
  shows "window_adjust_amount ch = 0 \<or>
    unat (recv_window ch) + unat (window_adjust_amount ch) = unat (recv_max ch) - in_q_bytes ch"
proof -
  have "in_q_bytes ch < 2 ^ 32"
    using assms unat_u32_bound [of "recv_max ch"] by (simp add: ch_inv_def)
  then have u: "unat (of_nat (in_q_bytes ch) :: u32) = in_q_bytes ch" by (rule unat_of_nat_u32)
  show ?thesis
    by (auto simp: window_adjust_amount_def Let_def unat_sub_u32 unat_sat_sub_u32 u word_le_nat_alt
        word_less_nat_alt)
qed

lemma unat_div_u32: "unat ((a :: u32) div b) = unat a div unat b"
  by (simp add: unat_div_distrib)

text \<open>
  No stall: an adjustment is withheld only while the peer still has most of its window. When
  the queue has been drained, either the window is topped up to the full amount, or less than an
  eighth of it is missing.
\<close>

text \<open>Claim C29. No stall: when the inbound queue is drained and no adjustment is due, the peer has
  the whole window, or at least a quarter of it with less than an eighth missing.\<close>

theorem window_adjust_progress:
  assumes "ch_inv ch" and "in_q_bytes ch = 0" and "window_adjust_amount ch = 0"
  shows "recv_window ch = recv_max ch \<or>
    unat (recv_max ch) - unat (recv_window ch) < unat (recv_max ch) div 8 \<and>
    unat (recv_max ch) div 4 \<le> unat (recv_window ch)"
proof -
  let ?rw = "recv_window ch" and ?rm = "recv_max ch"
  have le: "?rw \<le> ?rm" using assms(1) by (simp add: ch_inv_def word_le_nat_alt)
  show ?thesis
  proof (cases "?rm \<le> ?rw")
    case True
    with le show ?thesis by simp
  next
    case False
    with assms(2,3) have "?rm - ?rw = 0 \<or> \<not> (?rm - ?rw \<ge> ?rm div 8 \<or> ?rw < ?rm div 4)"
      by (auto simp: window_adjust_amount_def Let_def sat_sub_u32_def split: if_splits)
    with False le show ?thesis
      by (auto simp: word_le_nat_alt word_less_nat_alt unat_sub_u32 unat_div_u32 not_le)
  qed
qed

section \<open>The contract of a table of ids\<close>

text \<open>
  Seen from outside a table is a finite map \<open>look t\<close> with at most \<open>cap t\<close> entries. Allocation picks
  an id that is not in use and fails exactly on a full table; updates and removals touch one
  entry.
\<close>

locale id_table =
  fixes look :: "'t \<Rightarrow> u32 \<Rightarrow> 'c option"
    and alloc :: "'c \<Rightarrow> ('t, u32) act"
    and upd :: "u32 \<Rightarrow> ('c \<Rightarrow> 'c) \<Rightarrow> ('t, unit) act"
    and del :: "u32 \<Rightarrow> 't \<Rightarrow> 't"
    and cap :: "'t \<Rightarrow> nat"
    and stamp :: "u32 \<Rightarrow> 'c \<Rightarrow> 'c"
    and inv :: "'t \<Rightarrow> bool"
  assumes bounded: "inv t \<Longrightarrow> finite (dom (look t)) \<and> card (dom (look t)) \<le> cap t"
    and alloc_Inr: "inv t \<Longrightarrow> alloc c t = (Inr i, t') \<Longrightarrow>
      look t i = None \<and> look t' = (look t)(i \<mapsto> stamp i c) \<and> cap t' = cap t \<and> inv t'"
    and alloc_Inl: "inv t \<Longrightarrow> alloc c t = (Inl e, t') \<Longrightarrow>
      e \<noteq> Panic \<and> t' = t \<and> card (dom (look t)) = cap t"
    and upd_Some: "inv t \<Longrightarrow> look t i = Some c \<Longrightarrow>
      \<exists>t'. upd i f t = (Inr (), t') \<and> look t' = (look t)(i \<mapsto> f c) \<and> cap t' = cap t \<and> inv t'"
    and upd_None: "look t i = None \<Longrightarrow> \<exists>e. upd i f t = (Inl e, t) \<and> e \<noteq> Panic"
    and del_look: "inv t \<Longrightarrow> look (del i t) = (look t)(i := None) \<and> cap (del i t) = cap t \<and> inv (del i t)"
begin

lemma alloc_iff_room:
  assumes "inv t"
  shows "(\<exists>i t'. alloc c t = (Inr i, t')) \<longleftrightarrow> card (dom (look t)) < cap t"
proof
  assume "\<exists>i t'. alloc c t = (Inr i, t')"
  then obtain i t' where a: "alloc c t = (Inr i, t')" by blast
  note p = alloc_Inr [OF assms a]
  then have "dom (look t') = insert i (dom (look t))" by simp
  moreover have "i \<notin> dom (look t)" using p by auto
  moreover have "finite (dom (look t))" using bounded [OF assms] by simp
  ultimately have "card (dom (look t')) = Suc (card (dom (look t)))" by simp
  with p bounded [of t'] show "card (dom (look t)) < cap t" by simp
next
  assume room: "card (dom (look t)) < cap t"
  obtain r t' where a: "alloc c t = (r, t')" by (cases "alloc c t")
  show "\<exists>i t'. alloc c t = (Inr i, t')"
  proof (cases r)
    case (Inl e)
    with alloc_Inl [OF assms] a room show ?thesis by auto
  next
    case (Inr i)
    with a show ?thesis by blast
  qed
qed

text \<open>Allocating leaves every entry in use as it is.\<close>

lemma alloc_keeps:
  assumes "inv t" and "alloc c t = (Inr i, t')" and "look t j = Some d"
  shows "look t' j = Some d"
proof -
  note p = alloc_Inr [OF assms(1,2)]
  with assms(3) have "j \<noteq> i" by auto
  with p assms(3) show ?thesis by simp
qed

text \<open>A freed entry makes room for one more.\<close>

lemma del_makes_room:
  assumes "inv t" and "look t i = Some c"
  shows "\<exists>j t'. alloc d (del i t) = (Inr j, t')"
proof -
  have "dom (look (del i t)) = dom (look t) - {i}" using del_look [OF assms(1)] by auto
  moreover have "i \<in> dom (look t)" using assms(2) by auto
  ultimately have "card (dom (look (del i t))) < card (dom (look t))"
    using bounded [OF assms(1)] card_Diff1_less [of "dom (look t)" i] by metis
  with bounded [OF assms(1)] del_look [OF assms(1)] have "card (dom (look (del i t))) < cap (del i t)"
    by (metis order_less_le_trans)
  then show ?thesis using alloc_iff_room del_look [OF assms(1)] by blast
qed

end

section \<open>The slot vector implements the contract\<close>

text \<open>
  The free stack holds exactly the indices of the empty slots, each once; the vector is no longer
  than the limit; every channel knows its own index. \<open>Q\<close> is whatever else is to hold of channels.
\<close>

definition tbl_wf :: "channel_table \<Rightarrow> bool" where
  "tbl_wf t \<longleftrightarrow>
     distinct (tbl_free t) \<and>
     length (slots t) \<le> unat (max_channels t) \<and>
     (\<forall>i. i \<in> set (tbl_free t) \<longleftrightarrow> unat i < length (slots t) \<and> slots t ! unat i = None)"

definition tbl_all :: "(u32 \<Rightarrow> channel \<Rightarrow> bool) \<Rightarrow> channel_table \<Rightarrow> bool" where
  "tbl_all Q t \<longleftrightarrow> (\<forall>i c. ct_look t i = Some c \<longrightarrow> Q i c)"

lemma slots_len_u32: "tbl_wf t \<Longrightarrow> length (slots t) < 2 ^ 32"
  using unat_u32_bound [of "max_channels t"] by (simp add: tbl_wf_def)

lemma ct_look_dom: "dom (ct_look t) = {i. unat i < length (slots t) \<and> slots t ! unat i \<noteq> None}"
  by (auto simp: ct_look_def split: if_splits)

lemma unat_eq_u32: "n < 2 ^ 32 \<Longrightarrow> unat (i :: u32) = n \<longleftrightarrow> i = of_nat n"
  by (auto simp: unat_of_nat_u32)

lemma ct_look_upd:
  "unat i < length (slots t) \<Longrightarrow>
   ct_look (t\<lparr>slots := (slots t)[unat i := x]\<rparr>) = (ct_look t)(i := x)"
  by (auto simp: ct_look_def fun_eq_iff nth_list_update word_unat_eq_iff)

lemma ct_look_free [simp]: "ct_look (t\<lparr>tbl_free := f\<rparr>) = ct_look t"
  by (simp add: ct_look_def fun_eq_iff)

lemma ct_look_snoc [simp]: "ct_look (t\<lparr>slots := slots t @ [None]\<rparr>) = ct_look t"
  by (auto simp: ct_look_def fun_eq_iff nth_append)

lemma card_ct_look:
  assumes "tbl_wf t"
  shows "card (dom (ct_look t)) = length (slots t) - length (tbl_free t)"
    and "finite (dom (ct_look t))" and "length (tbl_free t) \<le> length (slots t)"
proof -
  let ?all = "{i :: u32. unat i < length (slots t)}" and ?free = "set (tbl_free t)"
  have "?all = of_nat ` {..<length (slots t)}"
  proof (intro set_eqI iffI)
    fix i assume "i \<in> ?all"
    then show "i \<in> of_nat ` {..<length (slots t)}" by (intro image_eqI [of _ _ "unat i"]) simp_all
  next
    fix i :: u32 assume "i \<in> of_nat ` {..<length (slots t)}"
    then show "i \<in> ?all" using slots_len_u32 [OF assms] by (auto simp: unat_of_nat_u32)
  qed
  moreover have "inj_on (of_nat :: nat \<Rightarrow> u32) {..<length (slots t)}"
    using slots_len_u32 [OF assms]
    by (intro inj_onI) (metis lessThan_iff order_less_trans unat_of_nat_u32)
  ultimately have all: "card ?all = length (slots t)" by (simp add: card_image)
  have sub: "?free \<subseteq> ?all" using assms by (auto simp: tbl_wf_def)
  have free: "card ?free = length (tbl_free t)" using assms by (simp add: tbl_wf_def distinct_card)
  have "dom (ct_look t) = ?all - ?free" using assms by (auto simp: ct_look_dom tbl_wf_def)
  then show "card (dom (ct_look t)) = length (slots t) - length (tbl_free t)"
    by (simp add: card_Diff_subset [OF _ sub] all free)
  show "finite (dom (ct_look t))" by simp
  have "card ?free \<le> card ?all" using sub by (intro card_mono) auto
  then show "length (tbl_free t) \<le> length (slots t)" by (simp only: all free)
qed

text \<open>Popping the free stack.\<close>

lemma distinct_butlast_set: "distinct xs \<Longrightarrow> xs \<noteq> [] \<Longrightarrow> set (butlast xs) = set xs - {last xs}"
  by (induction xs rule: rev_induct) auto

lemma tbl_wf_put:
  assumes "tbl_wf t" and "tbl_free t \<noteq> []" and "f = last (tbl_free t)"
  shows "tbl_wf (t\<lparr>tbl_free := butlast (tbl_free t), slots := (slots t)[unat f := Some c]\<rparr>)"
proof -
  have "set (butlast (tbl_free t)) = set (tbl_free t) - {f}" "distinct (butlast (tbl_free t))"
    using assms by (auto simp: distinct_butlast_set tbl_wf_def distinct_butlast)
  moreover have "unat i < length (slots t) \<and> (slots t)[unat f := Some c] ! unat i = None \<longleftrightarrow>
      i \<noteq> f \<and> unat i < length (slots t) \<and> slots t ! unat i = None" for i
    using word_unat_eq_iff [of i f] by (cases "unat f = unat i") auto
  ultimately show ?thesis using assms(1) by (auto simp: tbl_wf_def)
qed

lemma tbl_wf_snoc:
  assumes "tbl_wf t" and "length (slots t) < unat (max_channels t)"
  shows "tbl_wf (t\<lparr>slots := slots t @ [Some c]\<rparr>)"
proof -
  have "i \<in> set (tbl_free t) \<longleftrightarrow> unat i < Suc (length (slots t)) \<and> (slots t @ [Some c]) ! unat i = None"
    for i using assms(1) by (auto simp: tbl_wf_def nth_append less_Suc_eq)
  with assms show ?thesis by (simp add: tbl_wf_def)
qed

lemma ct_alloc_free:
  assumes "tbl_wf t" and "tbl_free t \<noteq> []" and "f = last (tbl_free t)"
  shows "ct_alloc c t = (Inr f, t\<lparr>tbl_free := butlast (tbl_free t),
    slots := (slots t)[unat f := Some (c\<lparr>local_id := f\<rparr>)]\<rparr>) \<and> ct_look t f = None"
proof -
  have "unat f < length (slots t) \<and> slots t ! unat f = None"
    using assms last_in_set [OF assms(2)] by (simp add: tbl_wf_def)
  with assms(2,3) show ?thesis by (simp add: ct_alloc_def put_slot_def ct_look_def)
qed

lemma ct_alloc_grow:
  assumes "tbl_wf t" and "tbl_free t = []" and "length (slots t) < unat (max_channels t)"
    and "f = of_nat (length (slots t))"
  shows "ct_alloc c t = (Inr f, t\<lparr>slots := slots t @ [Some (c\<lparr>local_id := f\<rparr>)]\<rparr>) \<and>
    unat f = length (slots t)"
proof -
  have "unat f = length (slots t)" using slots_len_u32 [OF assms(1)] assms(4) by (simp add: unat_of_nat_u32)
  with assms show ?thesis by (simp add: ct_alloc_def put_slot_def word_le_nat_alt)
qed

lemma ct_alloc_full:
  assumes "tbl_wf t" and "tbl_free t = []" and "\<not> length (slots t) < unat (max_channels t)"
  shows "ct_alloc c t = (Inl (Protocol ''too many channels''), t)"
  using assms slots_len_u32 [OF assms(1)]
  by (simp add: ct_alloc_def word_le_nat_alt unat_of_nat_u32)

lemma ct_look_put:
  "unat f < length (slots t) \<Longrightarrow>
   ct_look (t\<lparr>tbl_free := l, slots := (slots t)[unat f := x]\<rparr>) = (ct_look t)(f := x)"
  by (auto simp: ct_look_def fun_eq_iff nth_list_update word_unat_eq_iff)

lemma ct_look_grow:
  "unat f = length (slots t) \<Longrightarrow>
   ct_look (t\<lparr>slots := slots t @ [Some x]\<rparr>) = (ct_look t)(f := Some x) \<and> ct_look t f = None"
  by (auto simp: ct_look_def fun_eq_iff nth_append word_unat_eq_iff less_Suc_eq)

lemma ct_alloc_Inr:
  assumes wf: "tbl_wf t" and a: "ct_alloc c t = (Inr i, t')"
  shows "ct_look t i = None \<and> ct_look t' = (ct_look t)(i \<mapsto> c\<lparr>local_id := i\<rparr>) \<and>
    max_channels t' = max_channels t \<and> tbl_wf t'"
proof (cases "tbl_free t = []")
  case False
  note al = ct_alloc_free [OF wf False refl, of c]
  have "unat (last (tbl_free t)) < length (slots t)"
    using wf last_in_set [OF False] by (simp add: tbl_wf_def)
  with a al show ?thesis using tbl_wf_put [OF wf False refl] ct_look_put by auto
next
  case True
  with a wf have room: "length (slots t) < unat (max_channels t)"
    using ct_alloc_full [OF wf True, of c] by fastforce
  from ct_alloc_grow [OF wf True room refl, of c] a show ?thesis
    using tbl_wf_snoc [OF wf room] ct_look_grow by auto
qed

lemma ct_alloc_Inl:
  assumes "tbl_wf t" and "ct_alloc c t = (Inl e, t')"
  shows "e = Protocol ''too many channels'' \<and> t' = t \<and>
    tbl_free t = [] \<and> length (slots t) = unat (max_channels t)"
proof -
  have free: "tbl_free t = []" using ct_alloc_free [OF assms(1) _ refl, of c] assms(2) by fastforce
  have "\<not> length (slots t) < unat (max_channels t)"
    using ct_alloc_grow [OF assms(1) free _ refl, of c] assms(2) by fastforce
  with ct_alloc_full [OF assms(1) free this, of c] assms show ?thesis
    by (auto simp: free tbl_wf_def)
qed

lemma ct_update_Some:
  assumes "tbl_wf t" and "ct_look t i = Some c"
  shows "\<exists>t'. ct_update i f t = (Inr (), t') \<and> ct_look t' = (ct_look t)(i \<mapsto> f c) \<and>
    max_channels t' = max_channels t \<and> tbl_wf t'"
proof -
  have i: "unat i < length (slots t)" "slots t ! unat i \<noteq> None"
    using assms(2) by (auto simp: ct_look_def split: if_splits)
  have "tbl_wf (t\<lparr>slots := (slots t)[unat i := Some (f c)]\<rparr>)"
    using assms(1) i by (auto simp: tbl_wf_def nth_list_update word_unat_eq_iff)
  with assms i show ?thesis by (simp add: ct_update_def ct_look_upd)
qed

lemma ct_free_look:
  assumes "tbl_wf t"
  shows "ct_look (ct_free i t) = (ct_look t)(i := None) \<and> max_channels (ct_free i t) = max_channels t \<and>
    tbl_wf (ct_free i t)"
proof (cases "ct_look t i")
  case None
  with assms show ?thesis by (auto simp: ct_free_def fun_eq_iff)
next
  case (Some c)
  then have i: "unat i < length (slots t)" "slots t ! unat i \<noteq> None"
    by (auto simp: ct_look_def split: if_splits)
  have "tbl_wf (t\<lparr>slots := (slots t)[unat i := None], tbl_free := tbl_free t @ [i]\<rparr>)"
    using assms i by (auto simp: tbl_wf_def nth_list_update word_unat_eq_iff)
  with Some i show ?thesis by (simp add: ct_free_def ct_look_upd)
qed

interpretation tbl: id_table ct_look ct_alloc ct_update ct_free "\<lambda>t. unat (max_channels t)"
  "\<lambda>i c. c\<lparr>local_id := i\<rparr>" tbl_wf
proof
  fix t assume "tbl_wf t"
  then show "finite (dom (ct_look t)) \<and> card (dom (ct_look t)) \<le> unat (max_channels t)"
    using card_ct_look [of t] by (auto simp: tbl_wf_def)
next
  fix t c i t' assume "tbl_wf t" and "ct_alloc c t = (Inr i, t')"
  then show "ct_look t i = None \<and> ct_look t' = (ct_look t)(i \<mapsto> c\<lparr>local_id := i\<rparr>) \<and>
      unat (max_channels t') = unat (max_channels t) \<and> tbl_wf t'"
    using ct_alloc_Inr by auto
next
  fix t c e t' assume "tbl_wf t" and "ct_alloc c t = (Inl e, t')"
  then show "e \<noteq> Panic \<and> t' = t \<and> card (dom (ct_look t)) = unat (max_channels t)"
    using ct_alloc_Inl card_ct_look(1) [of t] by fastforce
next
  fix t i c and f :: "channel \<Rightarrow> channel" assume "tbl_wf t" and "ct_look t i = Some c"
  then show "\<exists>t'. ct_update i f t = (Inr (), t') \<and> ct_look t' = (ct_look t)(i \<mapsto> f c) \<and>
      unat (max_channels t') = unat (max_channels t) \<and> tbl_wf t'"
    using ct_update_Some by metis
next
  fix t i and f :: "channel \<Rightarrow> channel" assume "ct_look t i = None"
  then show "\<exists>e. ct_update i f t = (Inl e, t) \<and> e \<noteq> Panic" by (simp add: ct_update_def)
next
  fix t i assume "tbl_wf t"
  then show "ct_look (ct_free i t) = (ct_look t)(i := None) \<and>
      unat (max_channels (ct_free i t)) = unat (max_channels t) \<and> tbl_wf (ct_free i t)"
    using ct_free_look [of t i] by simp
qed

section \<open>Invariant of the table and its channels\<close>

text \<open>
  The slot vector is well formed, every channel knows its own id and keeps \<open>ch_inv\<close>. \<open>tstep\<close>
  relates two tables when the step from one to the other preserves this.
\<close>

definition tbl_inv :: "channel_table \<Rightarrow> bool" where
  "tbl_inv t \<longleftrightarrow> tbl_wf t \<and> tbl_all (\<lambda>i c. local_id c = i \<and> ch_inv c) t"

definition tstep :: "channel_table \<Rightarrow> channel_table \<Rightarrow> bool" where
  "tstep t t' \<longleftrightarrow> (tbl_inv t \<longrightarrow> tbl_inv t') \<and> max_channels t' = max_channels t"

interpretation tst: act_preorder tstep
  by unfold_locales (auto simp: tstep_def)

lemma tbl_inv_new: "tbl_inv (table_new n)"
  by (simp add: tbl_inv_def tbl_wf_def tbl_all_def table_new_def ct_look_def)

lemma tbl_inv_look: "tbl_inv t \<Longrightarrow> ct_look t i = Some c \<Longrightarrow> local_id c = i \<and> ch_inv c"
  by (simp add: tbl_inv_def tbl_all_def)

lemma ch_inv_local_id [simp]: "ch_inv (c\<lparr>local_id := i\<rparr>) = ch_inv c"
  by (simp add: ch_inv_def)

lemma tstep_alloc: "ch_inv c \<Longrightarrow> tstep t (snd (ct_alloc c t))"
proof -
  assume c: "ch_inv c"
  obtain r t' where a: "ct_alloc c t = (r, t')" by (cases "ct_alloc c t")
  have "max_channels t' = max_channels t"
    using a by (auto simp: ct_alloc_def put_slot_def split: if_splits)
  moreover have "tbl_inv t'" if inv: "tbl_inv t"
  proof (cases r)
    case (Inl e)
    with a inv ct_alloc_Inl show ?thesis by (auto simp: tbl_inv_def)
  next
    case (Inr i)
    with a inv ct_alloc_Inr [of t c i t'] c show ?thesis by (auto simp: tbl_inv_def tbl_all_def)
  qed
  ultimately show ?thesis by (simp add: tstep_def a)
qed

lemma tstep_update:
  assumes "\<And>c. ch_inv c \<Longrightarrow> ch_inv (f c)" and "\<And>c. local_id (f c) = local_id c"
  shows "tstep t (snd (ct_update i f t))"
proof (cases "ct_look t i")
  case None
  then show ?thesis by (simp add: ct_update_def tst.R_refl)
next
  case (Some c)
  then have "max_channels (snd (ct_update i f t)) = max_channels t" by (simp add: ct_update_def)
  moreover have "tbl_inv (snd (ct_update i f t))" if inv: "tbl_inv t"
  proof -
    have "tbl_wf t" using inv by (simp add: tbl_inv_def)
    from ct_update_Some [OF this Some, of f] obtain t' where "ct_update i f t = (Inr (), t')"
      "ct_look t' = (ct_look t)(i \<mapsto> f c)" "tbl_wf t'" by blast
    with inv Some assms show ?thesis by (auto simp: tbl_inv_def tbl_all_def)
  qed
  ultimately show ?thesis by (simp add: tstep_def)
qed

lemma ct_update_act_eq:
  "ct_look t i = Some c \<Longrightarrow> ct_update_act i m t = (fst (m c), snd (ct_update i (\<lambda>_. snd (m c)) t))"
  by (simp add: ct_update_act_def ct_update_def split: prod.splits)

lemma tstep_update_Some:
  assumes "ct_look t i = Some c" and "ch_inv c \<Longrightarrow> ch_inv d" and "local_id d = local_id c"
  shows "tstep t (snd (ct_update i (\<lambda>_. d) t))"
proof -
  have "max_channels (snd (ct_update i (\<lambda>_. d) t)) = max_channels t"
    using assms(1) by (simp add: ct_update_def)
  moreover have "tbl_inv (snd (ct_update i (\<lambda>_. d) t))" if inv: "tbl_inv t"
  proof -
    have "tbl_wf t" using inv by (simp add: tbl_inv_def)
    from ct_update_Some [OF this assms(1), of "\<lambda>_. d"] obtain t' where
      "ct_update i (\<lambda>_. d) t = (Inr (), t')" "ct_look t' = (ct_look t)(i \<mapsto> d)" "tbl_wf t'" by blast
    with inv assms show ?thesis by (auto simp: tbl_inv_def tbl_all_def)
  qed
  ultimately show ?thesis by (simp add: tstep_def)
qed

lemma tstep_free: "tstep t (ct_free i t)"
proof -
  have "max_channels (ct_free i t) = max_channels t" by (simp add: ct_free_def split: option.splits)
  moreover have "tbl_inv (ct_free i t)" if "tbl_inv t"
    using that ct_free_look [of t i] by (auto simp: tbl_inv_def tbl_all_def)
  ultimately show ?thesis by (simp add: tstep_def)
qed

text \<open>A step that opens no channel.\<close>

definition narrow :: "channel_table \<Rightarrow> channel_table \<Rightarrow> bool" where
  "narrow t t' \<longleftrightarrow> dom (ct_look t') \<subseteq> dom (ct_look t)"

lemma narrow_update: "narrow t (snd (ct_update i f t))"
  by (auto simp: narrow_def ct_update_def ct_look_upd ct_look_def nth_list_update
      split: option.splits if_splits)

lemma narrow_update_act: "narrow t (snd (ct_update_act i m t))"
  by (auto simp: narrow_def ct_update_act_def ct_look_def nth_list_update
      split: option.splits if_splits prod.splits)

lemma narrow_free: "narrow t (ct_free i t)"
  by (auto simp: narrow_def ct_free_def ct_look_def nth_list_update split: option.splits if_splits)

section \<open>Enumeration\<close>

text \<open>\<open>iter_ids\<close> lists the ids in use, each once.\<close>

lemma nth_local_id:
  assumes "tbl_inv t" and "n < length (slots t)" and "slots t ! n = Some c"
  shows "n = unat (local_id c)"
proof -
  have n: "n < 2 ^ 32" using assms slots_len_u32 [of t] by (simp add: tbl_inv_def)
  then have "ct_look t (of_nat n) = Some c" using assms(2,3) by (simp add: ct_look_def unat_of_nat_u32)
  then have "local_id c = of_nat n" using tbl_inv_look [OF assms(1)] by blast
  with n show ?thesis by (simp add: unat_of_nat_u32)
qed

lemma map_filter_id:
  "List.map_filter id [] = []" "List.map_filter id (None # xs) = List.map_filter id xs"
  "List.map_filter id (Some x # xs) = x # List.map_filter id xs"
  by (simp_all add: List.map_filter_def)

lemma distinct_map_filter:
  "(\<And>n c. n < length xs \<Longrightarrow> xs ! n = Some c \<Longrightarrow> f c = k + n) \<Longrightarrow>
   distinct (map f (List.map_filter id xs)) \<and> (\<forall>x \<in> set (map f (List.map_filter id xs)). (k :: nat) \<le> x)"
proof (induction xs arbitrary: k)
  case Nil
  then show ?case by (simp add: map_filter_id)
next
  case (Cons x xs)
  have "f c = Suc k + n" if "n < length xs" "xs ! n = Some c" for n c
    using Cons.prems [of "Suc n" c] that by simp
  from Cons.IH [OF this] have ih: "distinct (map f (List.map_filter id xs))"
    "\<forall>y \<in> set (map f (List.map_filter id xs)). Suc k \<le> y" by blast+
  have "f c = k" if "x = Some c" for c using Cons.prems [of 0 c] that by simp
  note first = this
  show ?case
  proof (cases x)
    case None
    then show ?thesis using ih by (simp only: map_filter_id) (auto dest: Suc_leD)
  next
    case (Some c)
    with ih first show ?thesis by (simp only: map_filter_id) (auto dest: Suc_leD)
  qed
qed

lemma iter_ids_dom:
  assumes "tbl_inv t"
  shows "distinct (iter_ids t) \<and> set (iter_ids t) = dom (ct_look t)"
proof
  have "distinct (map (\<lambda>c. unat (local_id c)) (List.map_filter id (slots t)))"
    using distinct_map_filter [of "slots t" "\<lambda>c. unat (local_id c)" 0] nth_local_id [OF assms] by simp
  then show "distinct (iter_ids t)" by (auto simp: iter_ids_def distinct_map inj_on_def)
  show "set (iter_ids t) = dom (ct_look t)"
  proof (intro set_eqI iffI)
    fix i assume "i \<in> set (iter_ids t)"
    then obtain c where c: "Some c \<in> set (slots t)" "i = local_id c"
      by (auto simp: iter_ids_def List.map_filter_def)
    then obtain n where "n < length (slots t)" "slots t ! n = Some c" by (auto simp: in_set_conv_nth)
    with nth_local_id [OF assms this] c(2) show "i \<in> dom (ct_look t)" by (auto simp: ct_look_def)
  next
    fix i assume "i \<in> dom (ct_look t)"
    then obtain c where c: "ct_look t i = Some c" by blast
    then have "Some c \<in> set (slots t)" by (auto simp: ct_look_def split: if_splits) (metis nth_mem)
    with tbl_inv_look [OF assms c] show "i \<in> set (iter_ids t)"
      by (force simp: iter_ids_def List.map_filter_def)
  qed
qed

section \<open>Properties\<close>

theorem window_adjust_progress_witness:
  "recv_window (channel_new 0 Session 1024 512 64 32) = recv_max (channel_new 0 Session 1024 512 64 32) \<or>
   unat (recv_max (channel_new 0 Session 1024 512 64 32)) -
     unat (recv_window (channel_new 0 Session 1024 512 64 32)) <
     unat (recv_max (channel_new 0 Session 1024 512 64 32)) div 8"
proof -
  have "in_q_bytes (channel_new 0 Session 1024 512 64 32) = 0"
    "window_adjust_amount (channel_new 0 Session 1024 512 64 32) = 0"
    by (simp_all add: channel_new_def window_adjust_amount_def sat_sub_u32_def Let_def)
  from window_adjust_progress [OF ch_inv_new this] show ?thesis by blast
qed

text \<open>Claim C28. Inbound data within the receive window is queued whole and charged to the window;
  data beyond it is refused with a protocol error and changes nothing.\<close>

theorem push_in_window:
  assumes "ch_inv ch" and "length data < 2 ^ 32"
  shows "if length data \<le> unat (recv_window ch)
    then \<exists>ch'. push_in data ch = (Inr (), ch') \<and> ch_inv ch' \<and> in_q ch' = in_q ch @ [data] \<and>
      unat (recv_window ch') = unat (recv_window ch) - length data
    else push_in data ch = (Inl (Protocol ''channel window exceeded''), ch)"
proof (cases "length data \<le> unat (recv_window ch)")
  case True
  then obtain ch' where ch': "push_in data ch = (Inr (), ch')" using push_in_ok [OF assms(2)] by blast
  then have "ch_inv ch'" using push_in_inv [OF assms] by simp
  moreover have "in_q ch' = in_q ch @ [data]" "unat (recv_window ch') = unat (recv_window ch) - length data"
    using ch' True unfolding push_in_ok [OF assms(2)]
    by (auto simp: unat_sub_u32 word_le_nat_alt unat_of_nat_u32 [OF assms(2)])
  ultimately show ?thesis using True ch' by simp
next
  case False
  then show ?thesis
    using unat_of_nat_u32 [OF assms(2)] by (simp add: push_in_def Let_def word_less_nat_alt not_le)
qed

theorem push_in_window_witness:
  "push_in [1, 2, 3] (channel_new 0 Session 2 512 64 32) =
     (Inl (Protocol ''channel window exceeded''), channel_new 0 Session 2 512 64 32)"
  using push_in_window [OF ch_inv_new, of "[1, 2, 3]" 0 Session 2 512 64 32] by (simp add: channel_new_def)

text \<open>Claim C27. The slot vector with its free stack implements a bounded map: allocation returns an
  id not in use, adds exactly that entry stamped with its id, and fails, changing nothing,
  exactly when the map is full.\<close>

theorem table_alloc:
  assumes "tbl_wf t"
  shows "(case ct_alloc ch t of
      (Inl e, t') \<Rightarrow> e = Protocol ''too many channels'' \<and> t' = t \<and> card (dom (ct_look t)) = unat (max_channels t)
    | (Inr i, t') \<Rightarrow> ct_look t i = None \<and> ct_look t' = (ct_look t)(i \<mapsto> ch\<lparr>local_id := i\<rparr>) \<and>
        max_channels t' = max_channels t \<and> tbl_wf t' \<and> card (dom (ct_look t)) < unat (max_channels t))"
proof -
  obtain r t' where a: "ct_alloc ch t = (r, t')" by fastforce
  show ?thesis
  proof (cases r)
    case (Inl e)
    with a ct_alloc_Inl [OF assms] tbl.alloc_Inl [OF assms] show ?thesis by auto
  next
    case (Inr i)
    with a ct_alloc_Inr [OF assms] tbl.alloc_iff_room [OF assms, of ch] show ?thesis by auto
  qed
qed

theorem table_alloc_witness: "tbl_wf (table_new 0) \<and> ct_alloc (channel_new 0 Session 1 1 1 1) (table_new 0) =
    (Inl (Protocol ''too many channels''), table_new 0)"
proof -
  have "tbl_wf (table_new 0)" using tbl_inv_new [of 0] by (simp add: tbl_inv_def)
  then show ?thesis
    using table_alloc [of "table_new 0" "channel_new 0 Session 1 1 1 1"]
    by (auto simp: table_new_def ct_alloc_def)
qed

lemma table_free:
  assumes "tbl_wf t" and "ct_look t i = Some ch"
  shows "ct_look (ct_free i t) = (ct_look t)(i := None) \<and> tbl_wf (ct_free i t) \<and>
    (\<exists>j t'. ct_alloc d (ct_free i t) = (Inr j, t'))"
  using tbl.del_look [OF assms(1), of i] tbl.del_makes_room [OF assms, of d] by simp

end
