(* ===== verification/Conn_State.thy ===== *)
theory Conn_State
  imports Proto Config Channel
begin

text \<open>
  The state of a connection, \<open>Connection\<close> of \<^verbatim>\<open>src/src/core/conn.rs\<close>, its constructors' common part,
  and the output side: sealing a message into the write queue (\<open>queue_msg\<close>), handing bytes out
  (\<open>peek_out\<close>, \<open>consume_out\<close>), starting a key exchange and disconnecting. The lemmas show that the
  output is a byte stream: sealing appends one packet to it, handing out removes a prefix, and the
  byte counters tell its length.
\<close>

section \<open>State\<close>

datatype role = Server | Client

datatype event =
    HandshakeComplete rstr
  | OpenDirectTcpIp u32 rstr u32
  | OpenSession u32
  | ChannelOpenConfirmation u32
  | ChannelOpenFailure u32 u32 rstr
  | ChannelData u32
  | ChannelEof u32
  | ChannelClose u32
  | EvDisconnect u32 rstr

record pending_keys =
  pk_send :: direction_keys
  pk_recv :: direction_keys

record kex_state =
  ours :: kexinit
  theirs :: "kexinit option"
  kx_secret :: "bytes option"
  local_pub :: "bytes option"
  cipher_c2s :: "cipher_kind option"
  cipher_s2c :: "cipher_kind option"

text \<open>
  The fields of \<^verbatim>\<open>struct Connection\<close>, in its order. \<open>c_rng\<close> is not a field of the program: it counts the
  bytes drawn so far from the system generator, which the code calls at several places.
\<close>

record conn =
  c_role :: role
  c_server :: "server_config option"
  c_client :: "client_config option"
  ident_local :: rstr
  ident_peer :: "rstr option"
  ident_acc :: bytes
  ident_in_done :: bool
  ident_out :: "bytes option"
  read_buf :: bytes
  send_seq :: u32
  recv_seq :: u32
  send_cipher :: direction_keys
  recv_cipher :: direction_keys
  bytes_io :: u64
  packets_io :: u32
  strict_kex :: bool
  peer_ext_info :: bool
  session_id :: "bytes option"
  last_h :: "bytes option"
  peer_ks :: "bytes option"
  c_kex :: "kex_state option"
  c_pending_keys :: "pending_keys option"
  sent_kexinit :: bool
  sent_newkeys :: bool
  recv_newkeys :: bool
  write_q :: "bytes list"
  current_out :: "bytes option"
  current_is_ident :: bool
  write_bytes :: nat
  write_soft :: nat
  write_hard :: nat
  rekey_after_bytes :: u64
  rekey_after_packets :: u32
  c_channels :: channel_table
  c_window :: u32
  c_max_packet :: u32
  c_events :: "event list"
  auth_fails :: u32
  c_user :: "rstr option"
  c_authed :: bool
  c_closed :: bool
  kex_blocks_app :: bool
  first_kex_done :: bool
  c_rr :: u32
  c_rng :: nat

definition conn_new ::
  "role \<Rightarrow> rstr \<Rightarrow> nat \<Rightarrow> nat \<Rightarrow> u64 \<Rightarrow> u32 \<Rightarrow> u32 \<Rightarrow> u32 \<Rightarrow> u32 \<Rightarrow> nat \<Rightarrow> conn" where
  "conn_new rl ident soft hard rk_bytes rk_packets max_ch win max_pkt rng =
     \<lparr>c_role = rl, c_server = None, c_client = None, ident_local = ident, ident_peer = None,
      ident_acc = [], ident_in_done = False, ident_out = None, read_buf = [], send_seq = 0,
      recv_seq = 0, send_cipher = DClear, recv_cipher = DClear, bytes_io = 0, packets_io = 0,
      strict_kex = False, peer_ext_info = False, session_id = None, last_h = None, peer_ks = None,
      c_kex = None, c_pending_keys = None, sent_kexinit = False, sent_newkeys = False,
      recv_newkeys = False, write_q = [], current_out = None, current_is_ident = False,
      write_bytes = 0, write_soft = soft, write_hard = hard, rekey_after_bytes = rk_bytes,
      rekey_after_packets = rk_packets, c_channels = table_new max_ch, c_window = win,
      c_max_packet = max_pkt, c_events = [], auth_fails = 0, c_user = None, c_authed = False,
      c_closed = False, kex_blocks_app = False, first_kex_done = False, c_rr = 0, c_rng = rng\<rparr>"

section \<open>Output\<close>

definition queue_ident :: "conn \<Rightarrow> conn" where
  "queue_ident c = c\<lparr>ident_out := Some (ident_local c @ [13, 10])\<rparr>"

definition is_closed :: "conn \<Rightarrow> bool" where
  "is_closed c = c_closed c"

definition nonempty :: "bytes option \<Rightarrow> bool" where
  "nonempty b = (case b of None \<Rightarrow> False | Some x \<Rightarrow> x \<noteq> [])"

definition opt_len :: "bytes option \<Rightarrow> nat" where
  "opt_len b = (case b of None \<Rightarrow> 0 | Some x \<Rightarrow> length x)"

definition wants_write :: "conn \<Rightarrow> bool" where
  "wants_write c \<longleftrightarrow> nonempty (ident_out c) \<or> nonempty (current_out c) \<or> write_q c \<noteq> []"

definition is_finished :: "conn \<Rightarrow> bool" where
  "is_finished c \<longleftrightarrow> c_closed c \<and> \<not> wants_write c"

definition queued_write_bytes :: "conn \<Rightarrow> nat" where
  "queued_write_bytes c =
     write_bytes c + (if current_is_ident c then opt_len (current_out c) else 0) + opt_len (ident_out c)"

definition pull_current_out :: "conn \<Rightarrow> conn" where
  "pull_current_out c0 =
     (let c = (if current_out c0 = Some [] then c0\<lparr>current_out := None, current_is_ident := False\<rparr>
               else c0)
      in if current_out c \<noteq> None then c
         else
           let c1 = c\<lparr>ident_out := None\<rparr> in
           if nonempty (ident_out c) then c1\<lparr>current_out := ident_out c, current_is_ident := True\<rparr>
           else
             let c2 = c1\<lparr>current_is_ident := False\<rparr>
             in case write_q c2 of
                  [] \<Rightarrow> c2
                | b # q \<Rightarrow> c2\<lparr>write_q := q, current_out := Some b\<rparr>)"

definition peek_out :: "conn \<Rightarrow> bytes option \<times> conn" where
  "peek_out c =
     (let c1 = pull_current_out c
      in (if nonempty (current_out c1) then current_out c1 else None, c1))"

section \<open>Sealing\<close>

text \<open>\<open>OsRng.fill_bytes\<close> on a slice of \<open>n\<close> bytes.\<close>

definition rng_fill :: "crypto \<Rightarrow> nat \<Rightarrow> (conn, bytes) act" where
  "rng_fill C n c = (Inr (map (os_rng C) [c_rng c..<c_rng c + n]), c\<lparr>c_rng := c_rng c + n\<rparr>)"

text \<open>The packet \<open>queue_msg\<close> lays out: length, padding length, payload, padding.\<close>

definition packet_plain :: "bytes \<Rightarrow> bytes \<Rightarrow> bytes" where
  "packet_plain payload padding =
     be_bytes32 (of_nat (1 + length payload + length padding)) @ [of_nat (length padding)] @ payload @
     padding"

definition queue_msg :: "crypto \<Rightarrow> bytes \<Rightarrow> bool \<Rightarrow> (conn, unit) act" where
  "queue_msg C payload priority = withS (\<lambda>c.
     if payload = [] then fail (Protocol ''empty msg'')
     else if \<not> priority \<and> write_bytes c \<ge> write_hard c then fail (Protocol ''write backlog'')
     else
       let kind = dk_kind (send_cipher c);
           block = block_size kind;
           tag = tag_len kind;
           pad = padding_len (length payload) block (is_aead kind);
           packet_length = 1 + length payload + pad;
           total = 4 + packet_length + tag
       in
         bindE (rng_fill C pad) (\<lambda>padding.
         bindE (tryR (dk_seal C (send_cipher c) (send_seq c) (packet_plain payload padding)
                  (replicate tag 0))) (\<lambda>(pkt, tag_out, keys).
         modify (\<lambda>c. c\<lparr>send_cipher := keys, send_seq := send_seq c + 1,
           bytes_io := bytes_io c + of_nat total, packets_io := packets_io c + 1,
           write_bytes := write_bytes c + length (pkt @ tag_out),
           write_q := write_q c @ [pkt @ tag_out]\<rparr>))))"

definition disconnect :: "crypto \<Rightarrow> u32 \<Rightarrow> rstr \<Rightarrow> (conn, unit) act" where
  "disconnect C reason msg = withS (\<lambda>c.
     if c_closed c then ret ()
     else
       let p = put_str (put_str (put_u32 [SSH_MSG_DISCONNECT] reason) msg) []
       in bindE (ignore (queue_msg C p True)) (\<lambda>_.
          modify (\<lambda>c. c\<lparr>c_closed := True, c_events := c_events c @ [EvDisconnect reason msg]\<rparr>)))"

section \<open>Starting a key exchange\<close>

definition start_kex :: "crypto \<Rightarrow> (conn, unit) act" where
  "start_kex C =
     bindE (rng_fill C 16) (\<lambda>ck.
     withS (\<lambda>c.
       let kex_list = (case c_role c of Server \<Rightarrow> SERVER_KEX | Client \<Rightarrow> CLIENT_KEX);
           our = kexinit_build ck kex_list SERVER_HOST_KEY SERVER_CIPHERS SERVER_MACS
       in
         bindE (queue_msg C (raw our) True) (\<lambda>_.
         bindE (modify (\<lambda>c. c\<lparr>sent_kexinit := True, sent_newkeys := False, recv_newkeys := False,
                  kex_blocks_app := True\<rparr>)) (\<lambda>_.
         bindE (if c_role c = Client
                then bindE (rng_fill C 32) (\<lambda>s. ret (Some s, Some (arr 32 (x25519_public C s))))
                else ret (None, None)) (\<lambda>(secret, pub).
         modify (\<lambda>c. c\<lparr>c_kex := Some \<lparr>ours = our, theirs = None, kx_secret = secret, local_pub = pub,
           cipher_c2s = None, cipher_s2c = None\<rparr>\<rparr>))))))"

definition maybe_start_kex :: "crypto \<Rightarrow> conn \<Rightarrow> conn" where
  "maybe_start_kex C c = (if \<not> sent_kexinit c then snd (start_kex C c) else c)"

definition consume_out :: "crypto \<Rightarrow> nat \<Rightarrow> conn \<Rightarrow> conn" where
  "consume_out C n c0 =
     (if n = 0 then c0
      else
        let c = pull_current_out c0 in
        case current_out c of
          None \<Rightarrow> c
        | Some b \<Rightarrow>
            let take_n = min n (length b);
                was_ident = current_is_ident c;
                c1 = (if take_n = length b then c\<lparr>current_out := None, current_is_ident := False\<rparr>
                      else c\<lparr>current_out := Some (drop take_n b)\<rparr>);
                c2 = (if \<not> was_ident then c1\<lparr>write_bytes := write_bytes c1 - take_n\<rparr> else c1)
            in if current_out c2 = None \<and> was_ident then maybe_start_kex C c2 else c2)"

text \<open>\<open>Connection::server\<close> and \<open>Connection::client\<close>: the KEXINIT follows the identification at once.\<close>

definition conn_server :: "crypto \<Rightarrow> server_config \<Rightarrow> nat \<Rightarrow> conn" where
  "conn_server C cfg rng =
     (let c = conn_new Server (sc_ident cfg) (sc_write_buf_soft cfg) (sc_write_buf_hard cfg)
                (sc_rekey_after_bytes cfg) (sc_rekey_after_packets cfg) (sc_max_channels cfg)
                (sc_window cfg) (sc_max_packet cfg) rng;
          c1 = queue_ident (c\<lparr>c_server := Some cfg\<rparr>)
      in snd (start_kex C c1))"

definition conn_client :: "crypto \<Rightarrow> client_config \<Rightarrow> nat \<Rightarrow> conn" where
  "conn_client C cfg rng =
     (let c = conn_new Client (cc_ident cfg) (cc_write_buf_soft cfg) (cc_write_buf_hard cfg)
                (cc_rekey_after_bytes cfg) (cc_rekey_after_packets cfg) 256
                (cc_window cfg) (cc_max_packet cfg) rng;
          c1 = queue_ident (c\<lparr>c_client := Some cfg\<rparr>)
      in snd (start_kex C c1))"

section \<open>Access to the channel table\<close>

definition on_table :: "(channel_table, 'a) act \<Rightarrow> (conn, 'a) act" where
  "on_table m c = (case m (c_channels c) of (r, t) \<Rightarrow> (r, c\<lparr>c_channels := t\<rparr>))"

definition push_event :: "event \<Rightarrow> (conn, unit) act" where
  "push_event e = modify (\<lambda>c. c\<lparr>c_events := c_events c @ [e]\<rparr>)"

abbreviation chan :: "conn \<Rightarrow> u32 \<Rightarrow> channel option" where
  "chan c i \<equiv> ct_look (c_channels c) i"

section \<open>What sealing does to the state\<close>

lemma dk_seal_no_panic: "dk_seal C k seq pkt t = Inl e \<Longrightarrow> e \<noteq> Panic"
  by (cases k) (auto simp: aes_seal_def chacha_seal_def Let_def split: if_splits option.splits)

lemma length_packet_plain [simp]:
  "length (packet_plain payload padding) = 5 + length payload + length padding"
  by (simp add: packet_plain_def)

text \<open>
  The two outcomes of \<open>queue_msg\<close>: an error leaves the state as it was but for the generator, and
  success appends one packet to the queue and counts it.
\<close>

definition sealed :: "bytes \<Rightarrow> direction_keys \<Rightarrow> nat \<Rightarrow> conn \<Rightarrow> conn" where
  "sealed pkt keys rng c = c\<lparr>c_rng := rng, send_cipher := keys, send_seq := send_seq c + 1,
     bytes_io := bytes_io c + of_nat (length pkt), packets_io := packets_io c + 1,
     write_bytes := write_bytes c + length pkt, write_q := write_q c @ [pkt]\<rparr>"

lemma queue_msg_cases:
  assumes "queue_msg C p prio c = (r, c')"
  obtains (err) e rng where "r = Inl e" "e \<noteq> Panic" "c' = c\<lparr>c_rng := rng\<rparr>"
    | (ok) pkt keys rng where "r = Inr ()" "c' = sealed pkt keys rng c" "10 \<le> length pkt"
        "dk_kind keys = dk_kind (send_cipher c)"
proof (cases "p = [] \<or> \<not> prio \<and> write_bytes c \<ge> write_hard c")
  case True
  have "c = c\<lparr>c_rng := c_rng c\<rparr>" by simp
  moreover obtain e where "r = Inl e" "e \<noteq> Panic" "c' = c"
    using True assms by (auto simp: queue_msg_def withS_def fail_def split: if_splits)
  ultimately show ?thesis using err by metis
next
  case False
  let ?k = "dk_kind (send_cipher c)"
  let ?pad = "padding_len (length p) (block_size ?k) (is_aead ?k)"
  let ?padding = "map (os_rng C) [c_rng c..<c_rng c + ?pad]"
  let ?seal = "dk_seal C (send_cipher c) (send_seq c) (packet_plain p ?padding) (replicate (tag_len ?k) 0)"
  have q: "queue_msg C p prio c = (case ?seal of Inl e \<Rightarrow> (Inl e, c\<lparr>c_rng := c_rng c + ?pad\<rparr>)
      | Inr (pkt, tg, keys) \<Rightarrow> (Inr (), (c\<lparr>c_rng := c_rng c + ?pad\<rparr>)\<lparr>send_cipher := keys,
          send_seq := send_seq c + 1,
          bytes_io := bytes_io c + of_nat (4 + (1 + length p + ?pad) + tag_len ?k),
          packets_io := packets_io c + 1, write_bytes := write_bytes c + length (pkt @ tg),
          write_q := write_q c @ [pkt @ tg]\<rparr>))"
    using False
    by (auto simp: queue_msg_def act_defs rng_fill_def Let_def split: sum.splits prod.splits)
  show ?thesis
  proof (cases ?seal)
    case (Inl e)
    with q assms dk_seal_no_panic [OF Inl] show ?thesis by (intro err) auto
  next
    case (Inr x)
    obtain pkt tg keys where x: "x = (pkt, tg, keys)" by (cases x)
    have len: "length (pkt @ tg) = 4 + (1 + length p + ?pad) + tag_len ?k"
      using dk_seal_length [OF Inr [unfolded x]] by simp
    have "1 \<le> length p" using False by (simp add: Suc_le_eq)
    then have al: "10 \<le> length (pkt @ tg)"
      using len padding_len_kind [of "length p" ?k "is_aead ?k"] by linarith
    have "c' = sealed (pkt @ tg) keys (c_rng c + ?pad) c" and "r = Inr ()"
      using q assms Inr x len by (auto simp: sealed_def)
    then show ?thesis using al dk_seal_kind [OF Inr [unfolded x]] by (intro ok)
  qed
qed

text \<open>The single-event summary used by the frame proofs: every field but the output ones is kept.\<close>

lemma queue_msg_snd:
  "\<exists>rng. snd (queue_msg C p prio c) = c\<lparr>c_rng := rng\<rparr> \<or>
     (\<exists>pkt keys. snd (queue_msg C p prio c) = sealed pkt keys rng c \<and> 10 \<le> length pkt \<and>
        dk_kind keys = dk_kind (send_cipher c))"
proof -
  obtain r c' where q: "queue_msg C p prio c = (r, c')" by (cases "queue_msg C p prio c")
  from q show ?thesis by (cases rule: queue_msg_cases) (auto simp: q)
qed

lemma np_queue [np_intro]: "never_panics (queue_msg C p prio)"
proof (rule never_panics_gen)
  fix c
  obtain r c' where q: "queue_msg C p prio c = (r, c')" by fastforce
  then show "calm c (queue_msg C p prio)" by (cases rule: queue_msg_cases) (simp_all add: q calm_def)
qed

section \<open>The output byte stream\<close>

text \<open>The bytes still to be handed to the socket, in order.\<close>

definition out_stream :: "conn \<Rightarrow> bytes" where
  "out_stream c =
     (case current_out c of None \<Rightarrow> [] | Some b \<Rightarrow> b) @
     (case ident_out c of None \<Rightarrow> [] | Some b \<Rightarrow> b) @ concat (write_q c)"

text \<open>
  The accounting invariant: \<open>write_bytes\<close> counts the sealed bytes in the queue and in the packet
  being written, no queued packet is empty, and the identification is never behind a packet.
\<close>

definition out_inv :: "conn \<Rightarrow> bool" where
  "out_inv c \<longleftrightarrow>
     write_bytes c = sum_list (map length (write_q c)) +
       (if current_is_ident c then 0 else opt_len (current_out c)) \<and>
     (\<forall>b \<in> set (write_q c). b \<noteq> []) \<and>
     current_out c \<noteq> Some [] \<and>
     (current_out c \<noteq> None \<longrightarrow> ident_out c = None)"

lemma out_stream_pull: "out_stream (pull_current_out c) = out_stream c" if "out_inv c"
  using that
  by (auto simp: pull_current_out_def out_stream_def nonempty_def Let_def out_inv_def
      split: list.splits option.splits)

lemma out_inv_pull: "out_inv (pull_current_out c)" if "out_inv c"
  using that
  by (auto simp: pull_current_out_def out_inv_def nonempty_def opt_len_def Let_def
      split: list.splits option.splits)

lemma queued_write_bytes_stream: "out_inv c \<Longrightarrow> queued_write_bytes c = length (out_stream c)"
  by (auto simp: queued_write_bytes_def out_stream_def out_inv_def opt_len_def length_concat_sum
      split: option.splits)

lemma wants_write_stream: "out_inv c \<Longrightarrow> wants_write c \<longleftrightarrow> out_stream c \<noteq> []"
  by (auto simp: wants_write_def out_stream_def out_inv_def nonempty_def split: option.splits)

text \<open>After \<open>pull_current_out\<close> the current packet holds the first bytes of the stream, if there are any.\<close>

lemma pull_current_front:
  assumes "out_inv c"
  shows "case current_out (pull_current_out c) of None \<Rightarrow> out_stream c = []
    | Some b \<Rightarrow> b \<noteq> [] \<and> (\<exists>r. out_stream c = b @ r)"
  using assms
  by (auto simp: pull_current_out_def out_stream_def nonempty_def Let_def out_inv_def
      split: list.splits option.splits)

text \<open>Growing at the end: what sealing does to the stream.\<close>

definition grows :: "conn \<Rightarrow> conn \<Rightarrow> bool" where
  "grows c c' \<longleftrightarrow> (out_inv c \<longrightarrow> out_inv c') \<and> current_out c' = current_out c \<and>
     ident_out c' = ident_out c \<and> current_is_ident c' = current_is_ident c \<and>
     (\<exists>ps. write_q c' = write_q c @ ps)"

interpretation gr: act_preorder grows
  by unfold_locales (auto simp: grows_def)

lemma grows_stream: "grows c c' \<Longrightarrow> prefix (out_stream c) (out_stream c')"
  by (auto simp: grows_def out_stream_def prefix_def)

lemma out_inv_sealed: "pkt \<noteq> [] \<Longrightarrow> out_inv c \<Longrightarrow> out_inv (sealed pkt keys rng c)"
  by (auto simp: out_inv_def sealed_def)

lemma grows_queue: "ensures grows (queue_msg C p prio)"
proof (rule ensures_gen)
  fix c
  obtain r c' where q: "queue_msg C p prio c = (r, c')" by (cases "queue_msg C p prio c")
  then have "grows c c'"
  proof (cases rule: queue_msg_cases)
    case (err e rng)
    then show ?thesis by (simp add: grows_def out_inv_def)
  next
    case (ok pkt keys rng)
    then have "pkt \<noteq> []" by auto
    with ok show ?thesis using out_inv_sealed [of pkt c keys rng] by (simp add: grows_def sealed_def)
  qed
  with q show "grows c (snd (queue_msg C p prio c))" by simp
qed

section \<open>Example states\<close>

text \<open>A server with one user and a client for it, before any byte has been exchanged.\<close>

definition demo_server_cfg :: server_config where
  "demo_server_cfg = server_config_new (hk_from_seed (replicate 32 1))
     [\<lparr>u_name = lit ''ann'', u_password = lit ''pw''\<rparr>]"

definition demo_client_cfg :: client_config where
  "demo_client_cfg = client_config_new (lit ''ann'') (lit ''pw'')"

definition demo_server :: conn where
  "demo_server = (conn_new Server (lit ''SSH-2.0-a'') 4096 8192 1000 1000 16 1024 512 0)
     \<lparr>c_server := Some demo_server_cfg\<rparr>"

definition demo_client :: conn where
  "demo_client = (conn_new Client (lit ''SSH-2.0-b'') 4096 8192 1000 1000 16 1024 512 0)
     \<lparr>c_client := Some demo_client_cfg\<rparr>"

lemmas demo_simps = demo_server_def demo_client_def conn_new_def

text \<open>An open channel with a window of 64 bytes, and a connection that has it as channel 0.\<close>

definition demo_channel :: channel where
  "demo_channel = (channel_new 0 DirectTcpIp 1024 512 64 32)\<lparr>remote_id := Some 7, open_confirmed := True\<rparr>"

definition demo_table :: channel_table where
  "demo_table = \<lparr>slots = [Some demo_channel], tbl_free = [], max_channels = 16\<rparr>"

lemma demo_chan [simp]: "ct_look demo_table 0 = Some demo_channel"
  by (simp add: demo_table_def ct_look_def)

end
