(* ===== verification/Conn_Channel.thy ===== *)
theory Conn_Channel
  imports Conn_State
begin

text \<open>
  The channel operations of \<^verbatim>\<open>src/src/core/conn.rs\<close>: what the adapter calls (\<open>send_data\<close>, \<open>send_eof\<close>,
  \<open>send_close\<close>, \<open>confirm_open\<close>, \<open>fail_open\<close>, \<open>consume_inbound\<close>, \<dots>), flow control
  (\<open>maybe_adjust\<close>, \<open>flush_pending\<close>) and the handlers of the channel messages.
\<close>

section \<open>Reading\<close>

definition peek_inbound :: "conn \<Rightarrow> u32 \<Rightarrow> bytes option" where
  "peek_inbound c i =
     (case chan c i of None \<Rightarrow> None | Some ch \<Rightarrow> (case in_q ch of [] \<Rightarrow> None | b # _ \<Rightarrow> Some b))"

definition conn_outbound_allowance :: "conn \<Rightarrow> u32 \<Rightarrow> nat" where
  "conn_outbound_allowance c i =
     (case chan c i of
        None \<Rightarrow> 0
      | Some ch \<Rightarrow>
          let pend_room = 256 * 1024 - pending_out_bytes ch in
          if kex_blocks_app c then min pend_room (unat (c_max_packet c))
          else if queued_write_bytes c \<ge> write_soft c then 0
          else min (ch_outbound_allowance ch) pend_room)"

definition conn_channel_kind :: "conn \<Rightarrow> u32 \<Rightarrow> channel_kind option" where
  "conn_channel_kind c i = map_option ch_kind (chan c i)"

definition channel_got_eof :: "conn \<Rightarrow> u32 \<Rightarrow> bool" where
  "channel_got_eof c i = (case chan c i of None \<Rightarrow> True | Some ch \<Rightarrow> got_eof ch)"

definition channel_alive :: "conn \<Rightarrow> u32 \<Rightarrow> bool" where
  "channel_alive c i = (chan c i \<noteq> None)"

definition round_robin_ids :: "conn \<Rightarrow> u32 list \<times> conn" where
  "round_robin_ids c =
     (let ids = iter_ids (c_channels c) in
      if ids = [] then (ids, c)
      else
        let n = length ids;
            start = unat (c_rr c) mod n
        in (rotate start ids, c\<lparr>c_rr := c_rr c + 1\<rparr>))"

definition pop_event :: "conn \<Rightarrow> event option \<times> conn" where
  "pop_event c =
     (case c_events c of [] \<Rightarrow> (None, c) | e # es \<Rightarrow> (Some e, c\<lparr>c_events := es\<rparr>))"

section \<open>Inbound flow control\<close>

definition maybe_adjust :: "crypto \<Rightarrow> u32 \<Rightarrow> (conn, unit) act" where
  "maybe_adjust C i = withS (\<lambda>c.
     if kex_blocks_app c then ret ()
     else case chan c i of
       None \<Rightarrow> ret ()
     | Some ch \<Rightarrow>
         let add = window_adjust_amount ch in
         if add = 0 then ret ()
         else
           bindE (ignore (on_table (ct_update i (\<lambda>ch. ch\<lparr>recv_window := recv_window ch + add\<rparr>)))) (\<lambda>_.
           case remote_id ch of
             None \<Rightarrow> ret ()
           | Some r \<Rightarrow>
               ignore (queue_msg C (put_u32 (put_u32 [SSH_MSG_CHANNEL_WINDOW_ADJUST] r) add) True)))"

text \<open>The part of the front chunk that \<open>consume_inbound\<close> takes off the queue.\<close>

definition take_inbound :: "nat \<Rightarrow> (channel, unit) act" where
  "take_inbound n = withS (\<lambda>ch.
     case in_q ch of
       [] \<Rightarrow> ret ()
     | front # q \<Rightarrow>
         let k = min n (length front) in
         if k = length front then
           bindE (tryR (pop_front (in_q ch))) (\<lambda>(b, q).
           modify (\<lambda>ch. ch\<lparr>in_q := q, in_q_bytes := in_q_bytes ch - length b\<rparr>))
         else
           bindE (tryR (split_at k front)) (\<lambda>(_, rest).
           modify (\<lambda>ch. ch\<lparr>in_q := rest # q, in_q_bytes := in_q_bytes ch - k\<rparr>)))"

definition consume_inbound :: "crypto \<Rightarrow> u32 \<Rightarrow> nat \<Rightarrow> (conn, unit) act" where
  "consume_inbound C i n = withS (\<lambda>c.
     case chan c i of
       None \<Rightarrow> ret ()
     | Some ch \<Rightarrow>
         if in_q ch = [] then ret ()
         else bindE (on_table (ct_update_act i (take_inbound n))) (\<lambda>_. maybe_adjust C i))"

section \<open>Outbound data\<close>

definition send_channel_data_pkt :: "crypto \<Rightarrow> u32 \<Rightarrow> bytes \<Rightarrow> (conn, unit) act" where
  "send_channel_data_pkt C remote data =
     queue_msg C (put_bytes (put_u32 [SSH_MSG_CHANNEL_DATA] remote) data) False"

definition enqueue_or_send :: "crypto \<Rightarrow> u32 \<Rightarrow> bytes \<Rightarrow> (conn, unit) act" where
  "enqueue_or_send C i chunk = withS (\<lambda>c.
     bindE (tryR (ct_get (c_channels c) i)) (\<lambda>ch.
     let can_wire = open_confirmed ch \<and> \<not> kex_blocks_app c \<and> \<not> sent_eof ch;
         park = on_table (ct_update i (\<lambda>ch. ch\<lparr>
           pending_out_bytes := pending_out_bytes ch + length chunk,
           pending_out := pending_out ch @ [chunk]\<rparr>))
     in
       if \<not> can_wire \<or> remote_id ch = None \<or> send_window ch = 0 then park
       else
         bindE (tryR (unwrap (remote_id ch))) (\<lambda>remote.
         let n = min (min (length chunk) (unat (max_remote_packet ch))) (unat (send_window ch)) in
         bindE (if n < length chunk
                then bindE (tryR (slice n (length chunk) chunk)) (\<lambda>rest.
                       on_table (ct_update i (\<lambda>ch. ch\<lparr>pending_out := rest # pending_out ch,
                         pending_out_bytes := pending_out_bytes ch + (length chunk - n)\<rparr>)))
                else ret ()) (\<lambda>_.
         bindE (on_table (ct_update i (\<lambda>ch. ch\<lparr>send_window := send_window ch - of_nat n\<rparr>))) (\<lambda>_.
         bindE (tryR (slice 0 n chunk)) (\<lambda>data.
         send_channel_data_pkt C remote data))))))"

text \<open>The loop of \<open>send_data\<close>; each round sends or parks at least one byte.\<close>

function send_data_loop :: "crypto \<Rightarrow> u32 \<Rightarrow> bytes \<Rightarrow> nat \<Rightarrow> (conn, nat) act" where
  "send_data_loop C i data sent c =
     (if sent < length data then
        let allow = conn_outbound_allowance c i in
        if allow = 0 then (Inr sent, c)
        else
          let n = min allow (length data - sent) in
          case slice sent (sent + n) data of
            Inl e \<Rightarrow> (Inl e, c)
          | Inr chunk \<Rightarrow>
              (case enqueue_or_send C i chunk c of
                 (Inl e, c') \<Rightarrow> (Inl e, c')
               | (Inr _, c') \<Rightarrow> send_data_loop C i data (sent + n) c')
      else (Inr sent, c))"
  by pat_completeness auto
termination
  by (relation "measure (\<lambda>(C, i, data, sent, c). length data - sent)") auto

declare send_data_loop.simps [simp del]

definition send_data :: "crypto \<Rightarrow> u32 \<Rightarrow> bytes \<Rightarrow> (conn, nat) act" where
  "send_data C i data = (if data = [] then ret 0 else send_data_loop C i data 0)"

text \<open>
  One round of the loop of \<open>flush_pending\<close>: \<open>None\<close> where the loop returns, otherwise the channel
  after taking the chunk off its queue, the chunk and the peer's id.
\<close>

definition flush_round :: "conn \<Rightarrow> u32 \<Rightarrow> (channel \<times> bytes \<times> u32) option result" where
  "flush_round c i =
     (case chan c i of
        None \<Rightarrow> Inr None
      | Some ch \<Rightarrow>
          let remote = remote_id ch;
              n = (case pending_out ch of [] \<Rightarrow> 0 | front # _ \<Rightarrow> length front)
          in
            if \<not> open_confirmed ch \<or> sent_eof ch \<or> remote = None \<or> send_window ch = 0 \<or> n = 0 then Inr None
            else if queued_write_bytes c \<ge> write_soft c then Inr None
            else
              let k = min (min n (unat (max_remote_packet ch))) (unat (send_window ch)) in
              (case pending_out ch of
                 [] \<Rightarrow> Inr None
               | front # q \<Rightarrow>
                   bindR (if k \<ge> length front then pop_front (pending_out ch)
                          else bindR (split_at k front) (\<lambda>(b, rest). Inr (b, rest # q))) (\<lambda>(b, q').
                   bindR (unwrap remote) (\<lambda>r.
                   Inr (Some (ch\<lparr>pending_out := q', pending_out_bytes := pending_out_bytes ch - length b,
                                send_window := send_window ch - of_nat (length b)\<rparr>, b, r))))))"

text \<open>Behind the guards the two \<open>unwrap\<close>s succeed.\<close>

lemma flush_round_eq:
  "flush_round c i = Inr
     (case chan c i of
        None \<Rightarrow> None
      | Some ch \<Rightarrow>
          (case (remote_id ch, pending_out ch) of
             (Some remote, front # q) \<Rightarrow>
               if \<not> open_confirmed ch \<or> sent_eof ch \<or> send_window ch = 0 \<or> length front = 0 then None
               else if queued_write_bytes c \<ge> write_soft c then None
               else
                 let k = min (min (length front) (unat (max_remote_packet ch))) (unat (send_window ch));
                     (b, q') = (if k \<ge> length front then (front, q) else (take k front, drop k front # q))
                 in Some (ch\<lparr>pending_out := q', pending_out_bytes := pending_out_bytes ch - length b,
                             send_window := send_window ch - of_nat (length b)\<rparr>, b, remote)
           | _ \<Rightarrow> None))"
  by (auto simp: flush_round_def Let_def split: option.splits list.splits)

lemma flush_round_room: "flush_round c i = Inr (Some x) \<Longrightarrow> queued_write_bytes c < write_soft c"
  by (auto simp: flush_round_eq Let_def split: option.splits list.splits if_splits)

lemma queued_table [simp]: "queued_write_bytes (c\<lparr>c_channels := t\<rparr>) = queued_write_bytes c"
  by (simp add: queued_write_bytes_def)

lemma queue_msg_grows_bytes:
  "queue_msg C p prio c = (Inr u, c') \<Longrightarrow>
   queued_write_bytes c < queued_write_bytes c' \<and> write_soft c' = write_soft c"
  by (erule queue_msg_cases) (auto simp: sealed_def queued_write_bytes_def)

function flush_loop :: "crypto \<Rightarrow> u32 \<Rightarrow> (conn, unit) act" where
  "flush_loop C i c =
     (case flush_round c i of
        Inl e \<Rightarrow> (Inl e, c)
      | Inr None \<Rightarrow> (Inr (), c)
      | Inr (Some (ch, b, remote)) \<Rightarrow>
          (case send_channel_data_pkt C remote b
                  (c\<lparr>c_channels := snd (ct_update i (\<lambda>_. ch) (c_channels c))\<rparr>) of
             (Inl e, c') \<Rightarrow> (if e = Panic then Inl Panic else Inr (), c')
           | (Inr _, c') \<Rightarrow> flush_loop C i c'))"
  by pat_completeness auto
termination
proof (relation "measure (\<lambda>(C, i, c). write_soft c - queued_write_bytes c)", goal_cases)
  case 1
  then show ?case by simp
next
  case (2 C i c o p ch y b remote z c' u)
  then have "send_channel_data_pkt C remote b
      (c\<lparr>c_channels := snd (ct_update i (\<lambda>_. ch) (c_channels c))\<rparr>) = (Inr u, c')" by simp
  then have "queued_write_bytes c < queued_write_bytes c' \<and> write_soft c' = write_soft c"
    unfolding send_channel_data_pkt_def by (auto dest!: queue_msg_grows_bytes)
  moreover have "queued_write_bytes c < write_soft c" using flush_round_room 2(1,2) by blast
  ultimately show ?case by (simp add: diff_less_mono2)
qed

declare flush_loop.simps [simp del]

definition flush_pending :: "crypto \<Rightarrow> u32 \<Rightarrow> (conn, unit) act" where
  "flush_pending C i = withS (\<lambda>c. if kex_blocks_app c then ret () else flush_loop C i)"

definition flush_pending_all :: "crypto \<Rightarrow> (conn, unit) act" where
  "flush_pending_all C = withS (\<lambda>c.
     if kex_blocks_app c then ret ()
     else for_each (iter_ids (c_channels c)) (\<lambda>i. flush_pending C i))"

section \<open>Half-close and close\<close>

definition emit_eof_if_ready :: "crypto \<Rightarrow> u32 \<Rightarrow> (conn, unit) act" where
  "emit_eof_if_ready C i = withS (\<lambda>c.
     if kex_blocks_app c then ret ()
     else case chan c i of
       None \<Rightarrow> ret ()
     | Some ch \<Rightarrow>
         if \<not> sent_eof ch \<or> wire_eof ch then ret ()
         else
           bindE (on_table (ct_update i (\<lambda>ch. ch\<lparr>wire_eof := True\<rparr>))) (\<lambda>_.
           case remote_id ch of
             None \<Rightarrow> ret ()
           | Some r \<Rightarrow> queue_msg C (put_u32 [SSH_MSG_CHANNEL_EOF] r) True))"

definition emit_close_if_ready :: "crypto \<Rightarrow> u32 \<Rightarrow> (conn, unit) act" where
  "emit_close_if_ready C i = withS (\<lambda>c.
     if kex_blocks_app c then ret ()
     else case chan c i of
       None \<Rightarrow> ret ()
     | Some ch \<Rightarrow>
         if \<not> sent_close ch then ret ()
         else
           bindE (if wire_close ch then ret None
                  else bindE (on_table (ct_update i (\<lambda>ch. ch\<lparr>wire_close := True, wire_eof := True\<rparr>)))
                         (\<lambda>_. ret (remote_id ch))) (\<lambda>remote.
           bindE (case remote of
                    None \<Rightarrow> ret ()
                  | Some r \<Rightarrow> queue_msg C (put_u32 [SSH_MSG_CHANNEL_CLOSE] r) True) (\<lambda>_.
           withS (\<lambda>c.
             case chan c i of
               None \<Rightarrow> ret ()
             | Some ch \<Rightarrow>
                 if got_close ch \<and> wire_close ch
                 then modify (\<lambda>c. c\<lparr>c_channels := ct_free i (c_channels c)\<rparr>)
                 else ret ()))))"

definition send_eof :: "crypto \<Rightarrow> u32 \<Rightarrow> (conn, unit) act" where
  "send_eof C i = withS (\<lambda>c.
     bindE (tryR (ct_get (c_channels c) i)) (\<lambda>ch.
     if sent_eof ch \<or> sent_close ch then ret ()
     else
       bindE (on_table (ct_update i (\<lambda>ch. ch\<lparr>sent_eof := True\<rparr>))) (\<lambda>_.
       emit_eof_if_ready C i)))"

definition send_close :: "crypto \<Rightarrow> u32 \<Rightarrow> (conn, unit) act" where
  "send_close C i = withS (\<lambda>c.
     bindE (tryR (ct_get (c_channels c) i)) (\<lambda>ch.
     if sent_close ch then ret ()
     else
       bindE (on_table (ct_update i (\<lambda>ch. ch\<lparr>sent_close := True, sent_eof := True\<rparr>))) (\<lambda>_.
       emit_close_if_ready C i)))"

section \<open>Opening\<close>

definition confirm_open :: "crypto \<Rightarrow> u32 \<Rightarrow> (conn, unit) act" where
  "confirm_open C i = withS (\<lambda>c.
     bindE (tryR (ct_get (c_channels c) i)) (\<lambda>ch.
     bindE (on_table (ct_update i (\<lambda>ch. ch\<lparr>open_confirmed := True\<rparr>))) (\<lambda>_.
     bindE (tryR (ok_or (Protocol ''confirm without remote'') (remote_id ch))) (\<lambda>remote.
     queue_msg C (put_u32 (put_u32 (put_u32 (put_u32 [SSH_MSG_CHANNEL_OPEN_CONFIRMATION] remote) i)
       (recv_max ch)) (max_local_packet ch)) True))))"

definition fail_open :: "crypto \<Rightarrow> u32 \<Rightarrow> u32 \<Rightarrow> rstr \<Rightarrow> (conn, unit) act" where
  "fail_open C i reason msg = withS (\<lambda>c.
     bindE (tryR (ct_get (c_channels c) i)) (\<lambda>ch.
     bindE (tryR (ok_or (Protocol ''fail without remote'') (remote_id ch))) (\<lambda>remote.
     bindE (modify (\<lambda>c. c\<lparr>c_channels := ct_free i (c_channels c)\<rparr>)) (\<lambda>_.
     queue_msg C (put_str (put_str (put_u32 (put_u32 [SSH_MSG_CHANNEL_OPEN_FAILURE] remote) reason)
       msg) []) True))))"

definition open_direct_tcpip :: "crypto \<Rightarrow> rstr \<Rightarrow> u32 \<Rightarrow> (conn, u32) act" where
  "open_direct_tcpip C host port = withS (\<lambda>c.
     if c_role c \<noteq> Client \<or> \<not> c_authed c then fail (Protocol ''open_direct before ready'')
     else
       let ch = (channel_new 0 DirectTcpIp (c_window c) (c_max_packet c) 0 0)
                  \<lparr>ch_host := Some host, ch_port := port\<rparr>
       in
         bindE (on_table (ct_alloc ch)) (\<lambda>i.
         bindE (queue_msg C (put_u32 (put_str (put_u32 (put_str (put_u32 (put_u32 (put_u32
           (put_str [SSH_MSG_CHANNEL_OPEN] (lit ''direct-tcpip'')) i) (c_window c)) (c_max_packet c))
           host) port) (lit ''127.0.0.1'')) 0) True) (\<lambda>_.
         ret i)))"

section \<open>Handlers of channel messages\<close>

definition on_channel_open :: "crypto \<Rightarrow> bytes \<Rightarrow> (conn, unit) act" where
  "on_channel_open C payload = withS (\<lambda>c.
     if \<not> c_authed c then fail (Protocol ''channel before auth'')
     else
       useE p_u8 (parser_new payload) (\<lambda>_ p.
       useE p_str p (\<lambda>typ p.
       useE p_u32 p (\<lambda>remote p.
       useE p_u32 p (\<lambda>swin p.
       useE p_u32 p (\<lambda>max_rpkt p.
       if typ = lit ''session'' then
         let ch = (channel_new 0 Session (c_window c) (c_max_packet c) swin max_rpkt)
                    \<lparr>remote_id := Some remote\<rparr>
         in bindE (on_table (ct_alloc ch)) (\<lambda>i. push_event (OpenSession i))
       else if typ = lit ''direct-tcpip'' then
         useE p_str p (\<lambda>host p.
         useE p_u32 p (\<lambda>port p.
         useE p_str p (\<lambda>_ p.
         useE p_u32 p (\<lambda>_ p.
         let ch = (channel_new 0 DirectTcpIp (c_window c) (c_max_packet c) swin max_rpkt)
                    \<lparr>remote_id := Some remote, ch_host := Some host, ch_port := port\<rparr>
         in bindE (on_table (ct_alloc ch)) (\<lambda>i. push_event (OpenDirectTcpIp i host port))))))
       else
         queue_msg C (put_str (put_str (put_u32 (put_u32 [SSH_MSG_CHANNEL_OPEN_FAILURE] remote)
           SSH_OPEN_UNKNOWN_CHANNEL_TYPE) (lit ''unknown channel type'')) []) True))))))"

definition on_open_confirm :: "crypto \<Rightarrow> bytes \<Rightarrow> (conn, unit) act" where
  "on_open_confirm C payload =
     useE p_u8 (parser_new payload) (\<lambda>_ p.
     useE p_u32 p (\<lambda>i p.
     useE p_u32 p (\<lambda>remote p.
     useE p_u32 p (\<lambda>win p.
     useE p_u32 p (\<lambda>max_pkt p.
     bindE (on_table (ct_update i (\<lambda>ch. ch\<lparr>remote_id := Some remote, send_window := win,
              max_remote_packet := max_pkt, open_confirmed := True\<rparr>))) (\<lambda>_.
     bindE (push_event (ChannelOpenConfirmation i)) (\<lambda>_.
     flush_pending C i)))))))"

definition on_open_fail :: "bytes \<Rightarrow> (conn, unit) act" where
  "on_open_fail payload =
     useE p_u8 (parser_new payload) (\<lambda>_ p.
     useE p_u32 p (\<lambda>i p.
     useE p_u32 p (\<lambda>reason p.
     useOr p_str [] p (\<lambda>message p.
     bindE (modify (\<lambda>c. c\<lparr>c_channels := ct_free i (c_channels c)\<rparr>)) (\<lambda>_.
     push_event (ChannelOpenFailure i reason message))))))"

definition on_window_adjust :: "crypto \<Rightarrow> bytes \<Rightarrow> (conn, unit) act" where
  "on_window_adjust C payload =
     useE p_u8 (parser_new payload) (\<lambda>_ p.
     useE p_u32 p (\<lambda>i p.
     useE p_u32 p (\<lambda>add p.
     bindE (on_table (ct_update i (\<lambda>ch. ch\<lparr>send_window := sat_add_u32 (send_window ch) add\<rparr>))) (\<lambda>_.
     flush_pending C i))))"

definition on_channel_data :: "bytes \<Rightarrow> (conn, unit) act" where
  "on_channel_data payload =
     (if length payload < 9 then fail (Protocol ''short channel data'')
      else
        bindE (tryR (bindR (slice 1 5 payload) be32_of)) (\<lambda>i.
        bindE (tryR (bindR (slice 5 9 payload) be32_of)) (\<lambda>n.
        let dlen = unat n in
        if length payload < 9 + dlen then fail (Protocol ''truncated channel data'')
        else
          bindE (tryR (slice 9 (9 + dlen) payload)) (\<lambda>data.
          bindE (on_table (ct_update_act i (push_in data))) (\<lambda>_.
          push_event (ChannelData i))))))"

definition on_ext_data :: "bytes \<Rightarrow> (conn, unit) act" where
  "on_ext_data payload =
     useE p_u8 (parser_new payload) (\<lambda>_ p.
     useE p_u32 p (\<lambda>i p.
     useE p_u32 p (\<lambda>_ p.
     useE p_bytes p (\<lambda>data p.
     bindE (on_table (ct_update_act i (push_in data))) (\<lambda>_.
     push_event (ChannelData i))))))"

definition on_channel_eof :: "bytes \<Rightarrow> (conn, unit) act" where
  "on_channel_eof payload =
     useE p_u8 (parser_new payload) (\<lambda>_ p.
     useE p_u32 p (\<lambda>i p.
     bindE (ignore (on_table (ct_update i (\<lambda>ch. ch\<lparr>got_eof := True\<rparr>)))) (\<lambda>_.
     push_event (ChannelEof i))))"

definition on_channel_close :: "crypto \<Rightarrow> bytes \<Rightarrow> (conn, unit) act" where
  "on_channel_close C payload =
     useE p_u8 (parser_new payload) (\<lambda>_ p.
     useE p_u32 p (\<lambda>i p.
     withS (\<lambda>c.
       case chan c i of
         None \<Rightarrow> ret ()
       | Some ch \<Rightarrow>
           bindE (on_table (ct_update i (\<lambda>ch. ch\<lparr>got_close := True, got_eof := True\<rparr>))) (\<lambda>_.
           bindE (if \<not> sent_close ch then ignore (send_close C i)
                  else ignore (emit_close_if_ready C i)) (\<lambda>_.
           push_event (ChannelClose i))))))"

definition channel_request_ok :: "rstr \<Rightarrow> bool" where
  "channel_request_ok name \<longleftrightarrow>
     name \<in> {lit ''pty-req'', lit ''env'', lit ''shell'', lit ''window-change'',
       lit ''eow@openssh.com'', lit ''keepalive@openssh.com'',
       lit ''simple@putty.projects.tartarus.org''}"

definition on_channel_request :: "crypto \<Rightarrow> bytes \<Rightarrow> (conn, unit) act" where
  "on_channel_request C payload =
     useE p_u8 (parser_new payload) (\<lambda>_ p.
     useE p_u32 p (\<lambda>i p.
     useOr p_str [] p (\<lambda>name p.
     useOr p_bool False p (\<lambda>want p.
     if \<not> want then ret ()
     else withS (\<lambda>c.
       case chan c i of
         None \<Rightarrow> ret ()
       | Some ch \<Rightarrow>
           (case remote_id ch of
              None \<Rightarrow> ret ()
            | Some r \<Rightarrow>
                queue_msg C (put_u32 [if channel_request_ok name then SSH_MSG_CHANNEL_SUCCESS
                                      else SSH_MSG_CHANNEL_FAILURE] r) True))))))"

definition on_ping :: "crypto \<Rightarrow> bytes \<Rightarrow> (conn, unit) act" where
  "on_ping C payload =
     useE p_u8 (parser_new payload) (\<lambda>_ p.
     useOr p_bytes [] p (\<lambda>data p.
     queue_msg C (put_bytes [SSH_MSG_PONG] data) True))"

section \<open>The operations without their partial steps\<close>

text \<open>Behind their guards the indexed and unwrapping operations are total: the same code on lists.\<close>

lemma take_inbound_eq:
  "take_inbound n ch = (Inr (),
     case in_q ch of
       [] \<Rightarrow> ch
     | front # q \<Rightarrow>
         let k = min n (length front) in
         if k = length front then ch\<lparr>in_q := q, in_q_bytes := in_q_bytes ch - length front\<rparr>
         else ch\<lparr>in_q := drop k front # q, in_q_bytes := in_q_bytes ch - k\<rparr>)"
  by (simp add: take_inbound_def withS_def Let_def ret_def modify_def split: list.splits)

lemma update_take_inbound: "ct_update_act i (take_inbound n) = ct_update i (\<lambda>ch. snd (take_inbound n ch))"
  by (rule ext) (simp add: ct_update_act_def ct_update_def take_inbound_eq split: option.splits)

lemma enqueue_or_send_eq:
  "enqueue_or_send C i chunk = withS (\<lambda>c.
     bindE (tryR (ct_get (c_channels c) i)) (\<lambda>ch.
     let can_wire = open_confirmed ch \<and> \<not> kex_blocks_app c \<and> \<not> sent_eof ch;
         park = on_table (ct_update i (\<lambda>ch. ch\<lparr>
           pending_out_bytes := pending_out_bytes ch + length chunk,
           pending_out := pending_out ch @ [chunk]\<rparr>))
     in
       if \<not> can_wire \<or> send_window ch = 0 then park
       else case remote_id ch of
         None \<Rightarrow> park
       | Some remote \<Rightarrow>
           let n = min (min (length chunk) (unat (max_remote_packet ch))) (unat (send_window ch)) in
           bindE (if n < length chunk
                  then on_table (ct_update i (\<lambda>ch. ch\<lparr>pending_out := drop n chunk # pending_out ch,
                         pending_out_bytes := pending_out_bytes ch + (length chunk - n)\<rparr>))
                  else ret ()) (\<lambda>_.
           bindE (on_table (ct_update i (\<lambda>ch. ch\<lparr>send_window := send_window ch - of_nat n\<rparr>))) (\<lambda>_.
           send_channel_data_pkt C remote (take n chunk)))))"
  unfolding enqueue_or_send_def
  by (intro arg_cong [where f = withS] arg_cong [where f = "bindE _"] ext)
    (simp add: Let_def split: option.splits)

lemma send_data_loop_eq:
  "send_data_loop C i data sent c =
     (if sent < length data then
        let allow = conn_outbound_allowance c i in
        if allow = 0 then (Inr sent, c)
        else
          let n = min allow (length data - sent) in
          case enqueue_or_send C i (take n (drop sent data)) c of
            (Inl e, c') \<Rightarrow> (Inl e, c')
          | (Inr _, c') \<Rightarrow> send_data_loop C i data (sent + n) c'
      else (Inr sent, c))"
  by (subst send_data_loop.simps) (simp add: Let_def)

lemma send_data_loop_induct [case_names step]:
  assumes step: "\<And>C i data sent c. (\<And>n c' u. \<lbrakk>sent < length data; conn_outbound_allowance c i \<noteq> 0;
      n = min (conn_outbound_allowance c i) (length data - sent);
      enqueue_or_send C i (take n (drop sent data)) c = (Inr u, c')\<rbrakk> \<Longrightarrow> P C i data (sent + n) c') \<Longrightarrow>
      P C i data sent c"
  shows "P C i data sent c"
proof (induction C i data sent c rule: send_data_loop.induct)
  case (1 C i data sent c)
  show ?case
  proof (rule step)
    fix n c' u
    assume a: "sent < length data" "conn_outbound_allowance c i \<noteq> 0"
      "n = min (conn_outbound_allowance c i) (length data - sent)"
      "enqueue_or_send C i (take n (drop sent data)) c = (Inr u, c')"
    then have "slice sent (sent + n) data = Inr (take n (drop sent data))" by simp
    then show "P C i data (sent + n) c'" using 1 [OF a(1) refl a(2) a(3) _ a(4) [symmetric] refl] by simp
  qed
qed

lemma on_channel_data_eq:
  "on_channel_data payload =
     (if length payload < 9 then fail (Protocol ''short channel data'')
      else
        let i = from_be32 (payload ! 1) (payload ! 2) (payload ! 3) (payload ! 4);
            dlen = unat (from_be32 (payload ! 5) (payload ! 6) (payload ! 7) (payload ! 8))
        in
          if length payload < 9 + dlen then fail (Protocol ''truncated channel data'')
          else
            bindE (on_table (ct_update_act i (push_in (take dlen (drop 9 payload))))) (\<lambda>_.
            push_event (ChannelData i)))"
proof (cases "length payload < 9")
  case True
  then show ?thesis by (simp add: on_channel_data_def)
next
  case False
  have "be32_of (take 4 (drop 1 payload)) = Inr (from_be32 (payload ! 1) (payload ! 2) (payload ! 3) (payload ! 4))"
    using be32_of_slice [of 1 payload] False by (simp add: eval_nat_numeral)
  moreover have "be32_of (take 4 (drop 5 payload)) = Inr (from_be32 (payload ! 5) (payload ! 6) (payload ! 7) (payload ! 8))"
    using be32_of_slice [of 5 payload] False by simp
  ultimately show ?thesis using False by (simp add: on_channel_data_def Let_def)
qed

section \<open>The channel updates keep the channel invariant\<close>

lemma adjust_inv:
  assumes "ch_inv ch"
  shows "ch_inv (ch\<lparr>recv_window := recv_window ch + window_adjust_amount ch\<rparr>)"
  using assms window_adjust_amount_cases [OF assms] unat_u32_bound [of "recv_max ch"]
  by (auto simp: ch_inv_def unat_word_ariths)

lemma take_inbound_inv: "ch_inv ch \<Longrightarrow> ch_inv (snd (take_inbound n ch))"
  by (auto simp: take_inbound_eq ch_inv_def Let_def min_def split: list.splits)

lemma pending_front_inv:
  assumes "ch_inv ch" and "pending_out ch = front # q"
  shows "ch_inv (ch\<lparr>pending_out := q, pending_out_bytes := pending_out_bytes ch - length front, send_window := w\<rparr>)"
    and "ch_inv (ch\<lparr>pending_out := drop k front # q,
      pending_out_bytes := pending_out_bytes ch - length (take k front), send_window := w\<rparr>)"
  using assms by (auto simp: ch_inv_def)

lemma flush_round_inv:
  assumes "flush_round c i = Inr (Some (ch', b, remote))"
  shows "\<exists>ch. chan c i = Some ch \<and> (ch_inv ch \<longrightarrow> ch_inv ch') \<and> local_id ch' = local_id ch"
proof -
  obtain ch front q where ch: "chan c i = Some ch" "pending_out ch = front # q"
    using assms by (auto simp: flush_round_eq split: option.splits list.splits)
  let ?k = "min (min (length front) (unat (max_remote_packet ch))) (unat (send_window ch))"
  have "\<exists>w. ch' = ch\<lparr>pending_out := q, pending_out_bytes := pending_out_bytes ch - length front, send_window := w\<rparr> \<or>
      ch' = ch\<lparr>pending_out := drop ?k front # q, pending_out_bytes := pending_out_bytes ch - length (take ?k front),
        send_window := w\<rparr>"
    using assms ch by (auto simp: flush_round_eq Let_def simp del: length_take split: option.splits if_splits)
  with ch pending_front_inv [OF _ ch(2)] show ?thesis by (auto simp del: length_take)
qed

text \<open>
  A round takes the next bytes off the front of what waits, never more than the peer's packet limit
  or window allow, and charges the window exactly; the rounds end for one of four reasons.
\<close>

lemma flush_round_takes:
  assumes "flush_round c i = Inr (Some (ch', b, remote))" and "chan c i = Some ch"
  shows "concat (pending_out ch) = b @ concat (pending_out ch') \<and> remote_id ch = Some remote \<and>
    length b \<le> unat (max_remote_packet ch) \<and>
    unat (send_window ch') + length b = unat (send_window ch) \<and> \<not> sent_eof ch \<and>
    (\<exists>q m w. ch' = ch\<lparr>pending_out := q, pending_out_bytes := m, send_window := w\<rparr>)"
proof -
  let ?k = "\<lambda>front :: bytes. min (min (length front) (unat (max_remote_packet ch))) (unat (send_window ch))"
  from assms obtain front q where f: "pending_out ch = front # q" "remote_id ch = Some remote" "\<not> sent_eof ch"
    and b: "(b, pending_out ch') = (if ?k front \<ge> length front then (front, q)
          else (take (?k front) front, drop (?k front) front # q))"
    and w: "send_window ch' = send_window ch - of_nat (length b)"
    by (auto simp: flush_round_eq Let_def split: option.splits list.splits if_splits prod.splits)
  have upd: "\<exists>q m w. ch' = ch\<lparr>pending_out := q, pending_out_bytes := m, send_window := w\<rparr>"
    using assms
    by (clarsimp simp: flush_round_eq Let_def split: option.splits list.splits if_splits prod.splits) blast+
  have len: "length b = ?k front" using b by (auto split: if_splits)
  then have "length b < 2 ^ 32" and le: "length b \<le> unat (send_window ch)"
    using unat_u32_bound [of "send_window ch"] by auto
  then have "unat (of_nat (length b) :: u32) = length b" by (intro unat_of_nat_u32)
  then have "unat (send_window ch') + length b = unat (send_window ch)"
    using le by (simp add: w unat_sub_u32 word_le_nat_alt)
  moreover have "concat (pending_out ch) = b @ concat (pending_out ch')"
    using b f(1) by (auto split: if_splits)
  ultimately show ?thesis using f len upd by simp
qed

lemma flush_round_stops:
  assumes "flush_round c i = Inr None" and "chan c i = Some ch" and "open_confirmed ch" and "\<not> sent_eof ch"
    and "remote_id ch = Some r"
  shows "pending_out ch = [] \<or> hd (pending_out ch) = [] \<or> send_window ch = 0 \<or> write_soft c \<le> queued_write_bytes c"
  using assms by (auto simp: flush_round_eq Let_def split: list.splits if_splits prod.splits)

lemma wire_eof_inv: "ch_inv ch \<Longrightarrow> sent_eof ch \<Longrightarrow> ch_inv (ch\<lparr>wire_eof := True\<rparr>)"
  by (simp add: ch_inv_def)

lemma wire_close_inv:
  "ch_inv ch \<Longrightarrow> sent_close ch \<Longrightarrow> ch_inv (ch\<lparr>wire_close := True, wire_eof := True\<rparr>)"
  by (simp add: ch_inv_def)

end
