(* ===== verification/Conn_Kex.thy ===== *)
theory Conn_Kex
  imports Conn_Channel
begin

text \<open>
  Key exchange, \<^verbatim>\<open>src/src/core/conn.rs\<close>: the handlers of KEXINIT, KEX_ECDH_INIT, KEX_ECDH_REPLY and
  NEWKEYS, the exchange hash, and what happens when both sides have switched keys.
\<close>

section \<open>Exchange hash and keys\<close>

definition is_zero :: "bytes \<Rightarrow> bool" where
  "is_zero b \<longleftrightarrow> fold (\<lambda>x acc. acc OR x) b 0 = 0"

definition compute_h ::
  "crypto \<Rightarrow> rstr \<Rightarrow> rstr \<Rightarrow> bytes \<Rightarrow> bytes \<Rightarrow> bytes \<Rightarrow> bytes \<Rightarrow> bytes \<Rightarrow> bytes \<Rightarrow> bytes" where
  "compute_h C v_c v_s i_c i_s k_s q_c q_s k_mpint =
     sha256 C (put_bytes (put_bytes (put_bytes (put_bytes (put_bytes (put_str (put_str [] v_c) v_s)
       i_c) i_s) k_s) q_c) q_s @ k_mpint)"

definition make_keys ::
  "crypto \<Rightarrow> bytes \<Rightarrow> bytes \<Rightarrow> bytes \<Rightarrow> byte \<Rightarrow> byte \<Rightarrow> cipher_kind \<Rightarrow> direction_keys result" where
  "make_keys C k_mpint h sid key_letter iv_letter kind =
     (let key = (if key_len kind > 0 then derive_block C k_mpint h sid key_letter (key_len kind)
                 else replicate (key_len kind) 0);
          iv_need = (if iv_len kind = 0 then 8 else iv_len kind);
          iv0 = derive_block C k_mpint h sid iv_letter iv_need
      in dk_from_material kind key (if iv_len kind = 0 then [] else take (iv_len kind) iv0))"

section \<open>Starting over\<close>

definition maybe_rekey :: "crypto \<Rightarrow> (conn, unit) act" where
  "maybe_rekey C = withS (\<lambda>c.
     if \<not> c_authed c \<or> \<not> first_kex_done c \<or> c_closed c then ret ()
     else if c_kex c \<noteq> None \<or> kex_blocks_app c \<or> sent_kexinit c then ret ()
     else if c_role c \<noteq> Server then ret ()
     else if bytes_io c \<ge> rekey_after_bytes c \<or> packets_io c \<ge> rekey_after_packets c
     then ignore (start_kex C)
     else ret ())"

section \<open>Completing an exchange\<close>

definition flush_post_rekey :: "crypto \<Rightarrow> (conn, unit) act" where
  "flush_post_rekey C = withS (\<lambda>c.
     for_each (iter_ids (c_channels c)) (\<lambda>i.
       bindE (maybe_adjust C i) (\<lambda>_.
       bindE (flush_pending C i) (\<lambda>_.
       bindE (ignore (emit_eof_if_ready C i)) (\<lambda>_.
       ignore (emit_close_if_ready C i))))))"

definition send_ext_info :: "crypto \<Rightarrow> (conn, unit) act" where
  "send_ext_info C =
     queue_msg C (put_str (put_str (put_u32 [SSH_MSG_EXT_INFO] 1) (lit ''server-sig-algs''))
       (lit ''ssh-ed25519'')) True"

definition send_service_request :: "crypto \<Rightarrow> (conn, unit) act" where
  "send_service_request C =
     queue_msg C (put_str [SSH_MSG_SERVICE_REQUEST] (lit ''ssh-userauth'')) True"

definition try_complete_kex :: "crypto \<Rightarrow> (conn, unit) act" where
  "try_complete_kex C = withS (\<lambda>c.
     if \<not> sent_newkeys c \<or> \<not> recv_newkeys c then ret ()
     else
       bindE (modify (\<lambda>c. c\<lparr>c_kex := None, sent_kexinit := False, c_pending_keys := None,
                bytes_io := 0, packets_io := 0\<rparr>)) (\<lambda>_.
       if \<not> first_kex_done c then
         bindE (modify (\<lambda>c. c\<lparr>first_kex_done := True\<rparr>)) (\<lambda>_.
         bindE (if c_role c = Server \<and> peer_ext_info c then send_ext_info C else ret ()) (\<lambda>_.
         if c_role c = Client then send_service_request C else ret ()))
       else
         bindE (modify (\<lambda>c. c\<lparr>kex_blocks_app := False\<rparr>)) (\<lambda>_.
         bindE (flush_post_rekey C) (\<lambda>_.
         modify (\<lambda>c. c\<lparr>bytes_io := 0, packets_io := 0\<rparr>)))))"

definition send_newkeys :: "crypto \<Rightarrow> (conn, unit) act" where
  "send_newkeys C =
     bindE (queue_msg C [SSH_MSG_NEWKEYS] True) (\<lambda>_.
     bindE (modify (\<lambda>c. case c_pending_keys c of
              None \<Rightarrow> c
            | Some pk \<Rightarrow> c\<lparr>send_cipher := pk_send pk, c_pending_keys := Some (pk\<lparr>pk_send := DClear\<rparr>)\<rparr>)) (\<lambda>_.
     bindE (modify (\<lambda>c. c\<lparr>sent_newkeys := True\<rparr>)) (\<lambda>_.
     bindE (modify (\<lambda>c. if strict_kex c then c\<lparr>send_seq := 0\<rparr> else c)) (\<lambda>_.
     try_complete_kex C))))"

definition on_newkeys :: "crypto \<Rightarrow> (conn, unit) act" where
  "on_newkeys C = withS (\<lambda>c.
     case c_pending_keys c of
       None \<Rightarrow> fail (Protocol ''newkeys without pending'')
     | Some pk \<Rightarrow>
         bindE (modify (\<lambda>c. c\<lparr>c_pending_keys := None, recv_cipher := pk_recv pk\<rparr>)) (\<lambda>_.
         bindE (modify (\<lambda>c. if \<not> sent_newkeys c
                  then c\<lparr>c_pending_keys := Some \<lparr>pk_send = pk_send pk, pk_recv = DClear\<rparr>\<rparr> else c)) (\<lambda>_.
         bindE (modify (\<lambda>c. c\<lparr>recv_newkeys := True\<rparr>)) (\<lambda>_.
         try_complete_kex C))))"

text \<open>
  \<open>finish_kex\<close>. The match on the role unwraps \<open>ident_peer\<close>, which panics before the peer's
  identification has been read; the session id and the last hash are stored before the ciphers are
  looked at.
\<close>

definition finish_kex :: "crypto \<Rightarrow> bytes \<Rightarrow> bytes \<Rightarrow> bytes \<Rightarrow> (conn, unit) act" where
  "finish_kex C q_c q_s shared = withS (\<lambda>c.
     bindE (tryR (ok_or (Protocol ''no kex'') (c_kex c))) (\<lambda>k.
     bindE (tryR (ok_or (Protocol ''no peer kexinit'') (theirs k))) (\<lambda>th.
     bindE (tryR (ok_or Panic (ident_peer c))) (\<lambda>peer.
     let (v_c, v_s, i_c, i_s) =
           (case c_role c of
              Server \<Rightarrow> (peer, ident_local c, raw th, raw (ours k))
            | Client \<Rightarrow> (ident_local c, peer, raw (ours k), raw th))
     in
     bindE (tryR (ok_or (Protocol ''no host blob'') (peer_ks c))) (\<lambda>ks.
     let k_mpint = encode_mpint shared;
         h = compute_h C v_c v_s i_c i_s ks q_c q_s k_mpint;
         sid = (case session_id c of None \<Rightarrow> h | Some s \<Rightarrow> s)
     in
     bindE (modify (\<lambda>c. c\<lparr>session_id := Some sid, last_h := Some h\<rparr>)) (\<lambda>_.
     bindE (tryR (ok_or (Protocol ''no c2s cipher'') (cipher_c2s k))) (\<lambda>c2s.
     bindE (tryR (ok_or (Protocol ''no s2c cipher'') (cipher_s2c k))) (\<lambda>s2c.
     let (send_kind, recv_kind, send_k, recv_k, send_ivl, recv_ivl) =
           (if c_role c = Server then (s2c, c2s, 0x44, 0x43, 0x42, 0x41)
            else (c2s, s2c, 0x43, 0x44, 0x41, 0x42))
     in
     bindE (tryR (make_keys C k_mpint h sid send_k send_ivl send_kind)) (\<lambda>snd_keys.
     bindE (tryR (make_keys C k_mpint h sid recv_k recv_ivl recv_kind)) (\<lambda>rcv_keys.
     modify (\<lambda>c. c\<lparr>c_pending_keys := Some \<lparr>pk_send = snd_keys, pk_recv = rcv_keys\<rparr>\<rparr>)))))))))))"

section \<open>Handlers\<close>

definition send_ecdh_init :: "crypto \<Rightarrow> (conn, unit) act" where
  "send_ecdh_init C = withS (\<lambda>c.
     bindE (tryR (ok_or (Protocol ''no client ecdh pub'') (Option.bind (c_kex c) local_pub))) (\<lambda>q.
     queue_msg C (put_bytes [SSH_MSG_KEX_ECDH_INIT] q) True))"

definition KEX_ALGS :: "rstr list" where
  "KEX_ALGS = [lit ''curve25519-sha256'', lit ''curve25519-sha256@libssh.org'']"

text \<open>The block of \<open>on_kexinit\<close> that negotiates and fills in the exchange state.\<close>

definition negotiate_kex :: "kexinit \<Rightarrow> kex_state \<Rightarrow> kex_state result" where
  "negotiate_kex th k = fst (
     (bindE (tryR (ok_or (Protocol ''no cipher c2s'') (negotiate SERVER_CIPHERS (enc_c2s th) False))) (\<lambda>c2s.
      bindE (tryR (ok_or (Protocol ''no cipher s2c'') (negotiate SERVER_CIPHERS (enc_s2c th) False))) (\<lambda>s2c.
      bindE (tryR (ok_or (Protocol ''no host key alg'') (negotiate SERVER_HOST_KEY (host_key_algs th) False))) (\<lambda>host.
      if host \<noteq> lit ''ssh-ed25519'' then fail (Protocol ''host key alg'')
      else
        bindE (tryR (ok_or (Protocol ''no kex alg'') (negotiate KEX_ALGS (kex_algs th) True))) (\<lambda>_.
        bindE (tryR (ok_or (Protocol ''no compression'') (negotiate SERVER_COMP (comp_c2s th) False))) (\<lambda>_.
        ret (k\<lparr>cipher_c2s := ck_from_name c2s, cipher_s2c := ck_from_name s2c, theirs := Some th\<rparr>))))))) ())"

definition on_kexinit :: "crypto \<Rightarrow> bytes \<Rightarrow> (conn, unit) act" where
  "on_kexinit C payload =
     bindE (tryR (kexinit_parse payload)) (\<lambda>th.
     bindE (withS (\<lambda>c. if c_kex c = None then start_kex C else ret ())) (\<lambda>_.
     withS (\<lambda>c.
       let strict_name = (case c_role c of Server \<Rightarrow> KEX_STRICT_C | Client \<Rightarrow> KEX_STRICT_S);
           ext_name = (case c_role c of Server \<Rightarrow> EXT_INFO_C | Client \<Rightarrow> EXT_INFO_S);
           peer_strict = list_has (kex_algs th) strict_name;
           peer_ext = list_has (kex_algs th) ext_name
       in
         bindE (tryR (ok_or Panic (c_kex c))) (\<lambda>k.
         bindE (tryR (negotiate_kex th k)) (\<lambda>k'.
         bindE (modify (\<lambda>c. c\<lparr>c_kex := Some k', strict_kex := (peer_strict \<or> strict_kex c),
                  peer_ext_info := peer_ext\<rparr>)) (\<lambda>_.
         if c_role c = Client then send_ecdh_init C else ret ()))))))"

definition on_ecdh_init :: "crypto \<Rightarrow> bytes \<Rightarrow> (conn, unit) act" where
  "on_ecdh_init C payload = withS (\<lambda>c.
     if c_role c \<noteq> Server then fail (Protocol ''ecdh init as client'')
     else
       useE p_u8 (parser_new payload) (\<lambda>t p.
       if t \<noteq> SSH_MSG_KEX_ECDH_INIT then fail (Protocol ''bad ecdh init'')
       else
         useE p_bytes p (\<lambda>q_c p.
         if length q_c \<noteq> 32 then fail (Crypto ''q_c len'')
         else
           bindE (rng_fill C 32) (\<lambda>secret.
           let q_s = arr 32 (x25519_public C secret);
               shared = arr 32 (x25519_shared C secret q_c)
           in
             if is_zero shared then fail (Crypto ''weak shared secret'')
             else if Option.bind (c_kex c) theirs = None then fail (Protocol ''ecdh before kexinit'')
             else
               bindE (tryR (ok_or Panic (c_server c))) (\<lambda>cfg.
               let host = sc_host_key cfg;
                   ks = hk_public_blob C host
               in
                 bindE (modify (\<lambda>c. c\<lparr>peer_ks := Some ks\<rparr>)) (\<lambda>_.
                 bindE (finish_kex C q_c q_s shared) (\<lambda>_.
                 withS (\<lambda>c.
                   bindE (tryR (ok_or Panic (last_h c))) (\<lambda>h_now.
                   bindE (queue_msg C (put_bytes (put_bytes (put_bytes [SSH_MSG_KEX_ECDH_REPLY] ks) q_s)
                     (hk_sign C host h_now)) True) (\<lambda>_.
                   send_newkeys C))))))))))"

definition on_ecdh_reply :: "crypto \<Rightarrow> bytes \<Rightarrow> (conn, unit) act" where
  "on_ecdh_reply C payload = withS (\<lambda>c.
     if c_role c \<noteq> Client then fail (Protocol ''ecdh reply as server'')
     else
       useE p_u8 (parser_new payload) (\<lambda>t p.
       if t \<noteq> SSH_MSG_KEX_ECDH_REPLY then fail (Protocol ''bad ecdh reply'')
       else
         useE p_bytes p (\<lambda>ks p.
         useE p_bytes p (\<lambda>q_s p.
         useE p_bytes p (\<lambda>_ p.
         if length q_s \<noteq> 32 then fail (Crypto ''q_s len'')
         else
           bindE (tryR (ok_or (Protocol ''no client pub'') (Option.bind (c_kex c) local_pub))) (\<lambda>q_c.
           bindE (tryR (ok_or (Protocol ''no client secret'') (Option.bind (c_kex c) kx_secret))) (\<lambda>secret.
           bindE (modify (\<lambda>c. c\<lparr>c_kex := map_option (\<lambda>k. k\<lparr>kx_secret := None\<rparr>) (c_kex c)\<rparr>)) (\<lambda>_.
           let shared = arr 32 (x25519_shared C secret q_s)
           in
             if is_zero shared then fail (Crypto ''weak shared secret'')
             else
               bindE (modify (\<lambda>c. c\<lparr>peer_ks := Some ks\<rparr>)) (\<lambda>_.
               bindE (finish_kex C q_c q_s shared) (\<lambda>_.
               send_newkeys C))))))))))"

end
