(* ===== verification/Conn_Auth.thy ===== *)
theory Conn_Auth
  imports Conn_Kex
begin

text \<open>
  Services, password authentication and global requests, \<^verbatim>\<open>src/src/core/conn.rs\<close>.
\<close>

definition on_service_request :: "crypto \<Rightarrow> bytes \<Rightarrow> (conn, unit) act" where
  "on_service_request C payload = withS (\<lambda>c.
     if c_role c \<noteq> Server then ret ()
     else
       useE p_u8 (parser_new payload) (\<lambda>_ p.
       useE p_str p (\<lambda>name p.
       if name \<noteq> lit ''ssh-userauth'' \<and> name \<noteq> lit ''ssh-connection''
       then fail (Protocol ''unknown service'')
       else queue_msg C (put_str [SSH_MSG_SERVICE_ACCEPT] name) True)))"

definition on_service_accept :: "crypto \<Rightarrow> (conn, unit) act" where
  "on_service_accept C = withS (\<lambda>c.
     if c_role c \<noteq> Client then ret ()
     else
       bindE (tryR (ok_or Panic (c_client c))) (\<lambda>cfg.
       queue_msg C (put_str (put_bool (put_str (put_str (put_str [SSH_MSG_USERAUTH_REQUEST]
         (cc_username cfg)) (lit ''ssh-connection'')) (lit ''password'')) False) (cc_password cfg)) True))"

definition auth_fail :: "crypto \<Rightarrow> server_config \<Rightarrow> (conn, unit) act" where
  "auth_fail C cfg = withS (\<lambda>c.
     if auth_fails c \<ge> sc_max_auth_fails cfg
     then disconnect C SSH_DISCONNECT_NO_MORE_AUTH_METHODS_AVAILABLE (lit ''too many failures'')
     else
       queue_msg C (put_bool (put_str [SSH_MSG_USERAUTH_FAILURE] (lit ''password'')) False) True)"

definition on_userauth_request :: "crypto \<Rightarrow> bytes \<Rightarrow> (conn, unit) act" where
  "on_userauth_request C payload = withS (\<lambda>c.
     if c_role c \<noteq> Server then ret ()
     else
       bindE (tryR (ok_or Panic (c_server c))) (\<lambda>cfg.
       useE p_u8 (parser_new payload) (\<lambda>_ p.
       useE p_str p (\<lambda>user p.
       useE p_str p (\<lambda>service p.
       useE p_str p (\<lambda>method p.
       if service \<noteq> lit ''ssh-connection'' then fail (Protocol ''auth service'')
       else if method = lit ''none'' then auth_fail C cfg
       else if method \<noteq> lit ''password'' then auth_fail C cfg
       else
         useE p_bool p (\<lambda>changing p.
         if changing then auth_fail C cfg
         else
           useE p_str p (\<lambda>password p.
           if check_password C cfg user password then
             bindE (modify (\<lambda>c. c\<lparr>c_authed := True, c_user := Some user, kex_blocks_app := False\<rparr>)) (\<lambda>_.
             bindE (queue_msg C [SSH_MSG_USERAUTH_SUCCESS] True) (\<lambda>_.
             push_event (HandshakeComplete user)))
           else
             bindE (modify (\<lambda>c. c\<lparr>auth_fails := auth_fails c + 1\<rparr>)) (\<lambda>_.
             auth_fail C cfg)))))))))"

definition on_global_request :: "crypto \<Rightarrow> bytes \<Rightarrow> (conn, unit) act" where
  "on_global_request C payload =
     useE p_u8 (parser_new payload) (\<lambda>_ p.
     useOr p_str [] p (\<lambda>name p.
     useOr p_bool False p (\<lambda>want p.
     if want then
       if name = lit ''keepalive@openssh.com'' \<or> name = lit ''no-more-sessions@openssh.com'' \<or>
          name = lit ''ping@openssh.com''
       then queue_msg C [SSH_MSG_REQUEST_SUCCESS] True
       else queue_msg C [SSH_MSG_REQUEST_FAILURE] True
     else ret ())))"

end
