(* ===== verification/Conn_Step.thy ===== *)
theory Conn_Step
  imports Conn_Auth
begin

text \<open>
  The inbound side of \<^verbatim>\<open>src/src/core/conn.rs\<close>: the identification line, unsealing one packet from the
  read buffer, and the dispatch of its payload to the handlers.
\<close>

section \<open>Dispatch\<close>

definition handle_payload :: "crypto \<Rightarrow> bytes \<Rightarrow> (conn, unit) act" where
  "handle_payload C payload =
     bindE (tryR (index payload 0)) (\<lambda>t.
      if t = SSH_MSG_DISCONNECT then
        useE p_u8 (parser_new payload) (\<lambda>_ p.
        useOr p_u32 0 p (\<lambda>reason p.
        useOr p_str [] p (\<lambda>message p.
        bindE (modify (\<lambda>c. c\<lparr>c_closed := True\<rparr>)) (\<lambda>_. push_event (EvDisconnect reason message)))))
      else if t = SSH_MSG_IGNORE \<or> t = SSH_MSG_DEBUG \<or> t = SSH_MSG_UNIMPLEMENTED then ret ()
      else if t = SSH_MSG_KEXINIT then on_kexinit C payload
      else if t = SSH_MSG_KEX_ECDH_INIT then on_ecdh_init C payload
      else if t = SSH_MSG_KEX_ECDH_REPLY then on_ecdh_reply C payload
      else if t = SSH_MSG_NEWKEYS then on_newkeys C
      else if t = SSH_MSG_EXT_INFO then ret ()
      else if t = SSH_MSG_SERVICE_REQUEST then on_service_request C payload
      else if t = SSH_MSG_SERVICE_ACCEPT then on_service_accept C
      else if t = SSH_MSG_USERAUTH_REQUEST then on_userauth_request C payload
      else if t = SSH_MSG_USERAUTH_FAILURE then fail Auth
      else if t = SSH_MSG_USERAUTH_SUCCESS then
        withS (\<lambda>c.
          let user = (case c_client c of None \<Rightarrow> [] | Some cfg \<Rightarrow> cc_username cfg)
          in bindE (modify (\<lambda>c. c\<lparr>c_authed := True, c_user := Some user, kex_blocks_app := False\<rparr>)) (\<lambda>_.
             push_event (HandshakeComplete user)))
      else if t = SSH_MSG_USERAUTH_BANNER then ret ()
      else if t = SSH_MSG_GLOBAL_REQUEST then on_global_request C payload
      else if t = SSH_MSG_REQUEST_SUCCESS \<or> t = SSH_MSG_REQUEST_FAILURE then ret ()
      else if t = SSH_MSG_CHANNEL_OPEN then on_channel_open C payload
      else if t = SSH_MSG_CHANNEL_OPEN_CONFIRMATION then on_open_confirm C payload
      else if t = SSH_MSG_CHANNEL_OPEN_FAILURE then on_open_fail payload
      else if t = SSH_MSG_CHANNEL_WINDOW_ADJUST then on_window_adjust C payload
      else if t = SSH_MSG_CHANNEL_DATA then on_channel_data payload
      else if t = SSH_MSG_CHANNEL_EXTENDED_DATA then on_ext_data payload
      else if t = SSH_MSG_CHANNEL_EOF then on_channel_eof payload
      else if t = SSH_MSG_CHANNEL_CLOSE then on_channel_close C payload
      else if t = SSH_MSG_CHANNEL_REQUEST then on_channel_request C payload
      else if t = SSH_MSG_CHANNEL_SUCCESS \<or> t = SSH_MSG_CHANNEL_FAILURE then ret ()
      else if t = SSH_MSG_PING then on_ping C payload
      else if t = SSH_MSG_PONG then ret ()
      else withS (\<lambda>c. queue_msg C (put_u32 [SSH_MSG_UNIMPLEMENTED] (recv_seq c - 1)) True))"

section \<open>One packet\<close>

text \<open>\<open>{length}\<close> and \<open>{:?}\<close> of the error message.\<close>

fun dec_digits :: "nat \<Rightarrow> rstr" where
  "dec_digits n = (if n < 10 then [of_nat (48 + n)] else dec_digits (n div 10) @ [of_nat (48 + n mod 10)])"

fun kind_debug :: "cipher_kind \<Rightarrow> rstr" where
  "kind_debug Clear = lit ''Clear''"
| "kind_debug ChaCha20Poly1305 = lit ''ChaCha20Poly1305''"
| "kind_debug Aes128Gcm = lit ''Aes128Gcm''"
| "kind_debug Aes256Gcm = lit ''Aes256Gcm''"

definition bad_length_msg :: "nat \<Rightarrow> u32 \<Rightarrow> cipher_kind \<Rightarrow> rstr" where
  "bad_length_msg len seq kind =
     lit ''bad packet length '' @ dec_digits len @ lit '' seq='' @ dec_digits (unat seq) @
     lit '' cipher='' @ kind_debug kind"

text \<open>The packet number and length bookkeeping, the strict-KEX gate, and the dispatch.\<close>

definition accept_payload :: "crypto \<Rightarrow> nat \<Rightarrow> bytes \<Rightarrow> (conn, unit) act" where
  "accept_payload C tot payload =
     bindE (modify (\<lambda>c. c\<lparr>recv_seq := recv_seq c + 1, bytes_io := bytes_io c + of_nat tot,
              packets_io := packets_io c + 1\<rparr>)) (\<lambda>_.
     withS (\<lambda>c.
       bindE (tryR (index payload 0)) (\<lambda>msg.
       if strict_kex c \<and> \<not> first_kex_done c \<and> is_transport_ignore msg
       then fail (Protocol ''strict kex ignore'')
       else if strict_kex c \<and> \<not> first_kex_done c \<and> \<not> is_kex_msg msg \<and> msg \<noteq> SSH_MSG_EXT_INFO
       then fail (Protocol ''strict kex unexpected'')
       else
         bindE (modify (\<lambda>c. if msg = SSH_MSG_NEWKEYS \<and> strict_kex c then c\<lparr>recv_seq := 0\<rparr> else c)) (\<lambda>_.
         handle_payload C payload))))"

text \<open>\<open>u32::from_be_bytes\<close> of a \<open>[u8; 4]\<close>, as a \<open>usize\<close>.\<close>

definition be_len :: "bytes \<Rightarrow> nat" where
  "be_len b = unat (from_be32 (b ! 0) (b ! 1) (b ! 2) (b ! 3))"

text \<open>The statements of \<open>try_one_packet\<close> that cut the padding off the opened packet.\<close>

definition unpad :: "nat \<Rightarrow> bytes \<Rightarrow> bytes result" where
  "unpad len pkt =
     bindR (index pkt 4) (\<lambda>b.
     let pad = unat b in
     if pad < 4 then Inl (Protocol ''bad padding'')
     else if 1 + pad \<ge> len then Inl (Protocol ''padding vs length'')
     else
       let payload_end = 4 + len - pad in
       bindR (split_at 5 pkt) (\<lambda>(_, rest).
       let payload = take (payload_end - 5) rest
       in if payload = [] then Inl (Protocol ''empty payload'') else Inr payload))"

text \<open>
  The cipher opens the body in place: \<open>opened\<close> is the new content of the slice \<open>body\<close>, whose first four
  bytes are then overwritten with the length field.
\<close>

definition try_one_packet :: "crypto \<Rightarrow> (conn, bool) act" where
  "try_one_packet C = withS (\<lambda>c.
     if length (read_buf c) < 4 then ret False
     else
       bindE (tryR (slice 0 4 (read_buf c))) (\<lambda>enc_len.
       let plain_len = dk_decrypt_length C (recv_cipher c) (recv_seq c) enc_len;
           kind = dk_kind (recv_cipher c);
           len = be_len plain_len
       in
         if len < 4 \<or> len > MAX_PACKET then fail (ProtocolFmt (bad_length_msg len (recv_seq c) kind))
         else
           let tot = 4 + len + tag_len kind in
           if length (read_buf c) < tot then ret False
           else
             bindE (tryR (split_at tot (read_buf c))) (\<lambda>(pkt, rest).
             bindE (modify (\<lambda>c. c\<lparr>read_buf := rest\<rparr>)) (\<lambda>_.
             bindE (tryR (split_at (4 + len) pkt)) (\<lambda>(body, tagb).
             bindE (tryR (dk_open C (recv_cipher c) (recv_seq c) body tagb)) (\<lambda>(opened, keys).
             bindE (modify (\<lambda>c. c\<lparr>recv_cipher := keys\<rparr>)) (\<lambda>_.
             bindE (tryR (split_at 4 opened)) (\<lambda>(_, after_len).
             bindE (tryR (unpad len (plain_len @ after_len @ tagb))) (\<lambda>payload.
             bindE (accept_payload C tot payload) (\<lambda>_. ret True))))))))))"

text \<open>
  The same code without its partial steps: behind the two length checks no slice or index is out
  of range. \<open>plain_len_bytes\<close> is the length field at the front of the read buffer.
\<close>

definition plain_len_bytes :: "crypto \<Rightarrow> conn \<Rightarrow> bytes" where
  "plain_len_bytes C c = dk_decrypt_length C (recv_cipher c) (recv_seq c) (take 4 (read_buf c))"

lemma unpad_eq:
  assumes "5 \<le> length pkt"
  shows "unpad len pkt =
     (let pad = unat (pkt ! 4) in
      if pad < 4 then Inl (Protocol ''bad padding'')
      else if 1 + pad \<ge> len then Inl (Protocol ''padding vs length'')
      else
        let payload_end = 4 + len - pad;
            payload = take (payload_end - 5) (drop 5 pkt)
        in if payload = [] then Inl (Protocol ''empty payload'') else Inr payload)"
  using assms by (simp add: unpad_def Let_def)

lemma try_one_packet_eq:
  "try_one_packet C = withS (\<lambda>c.
     if length (read_buf c) < 4 then ret False
     else
       let kind = dk_kind (recv_cipher c);
           len = be_len (plain_len_bytes C c)
       in
         if len < 4 \<or> len > MAX_PACKET then fail (ProtocolFmt (bad_length_msg len (recv_seq c) kind))
         else
           let tot = 4 + len + tag_len kind in
           if length (read_buf c) < tot then ret False
           else
             let body = take (4 + len) (read_buf c);
                 tagb = take (tag_len kind) (drop (4 + len) (read_buf c))
             in
               bindE (modify (\<lambda>c. c\<lparr>read_buf := drop tot (read_buf c)\<rparr>)) (\<lambda>_.
               bindE (tryR (dk_open C (recv_cipher c) (recv_seq c) body tagb)) (\<lambda>(opened, keys).
               bindE (modify (\<lambda>c. c\<lparr>recv_cipher := keys\<rparr>)) (\<lambda>_.
               bindE (tryR (unpad len (plain_len_bytes C c @ drop 4 opened @ tagb))) (\<lambda>payload.
               bindE (accept_payload C tot payload) (\<lambda>_. ret True))))))" (is "_ = ?rhs")
proof (rule ext)
  fix c
  define len where "len = be_len (plain_len_bytes C c)"
  define tg where "tg = tag_len (dk_kind (recv_cipher c))"
  show "try_one_packet C c = ?rhs c"
  proof (cases "4 \<le> length (read_buf c) \<and> 4 \<le> len \<and> len \<le> MAX_PACKET \<and> 4 + len + tg \<le> length (read_buf c)")
    case False
    then show ?thesis
      by (auto simp: try_one_packet_def withS_def Let_def plain_len_bytes_def [symmetric]
          len_def [symmetric] tg_def [symmetric] not_less)
  next
    case True
    then have "4 \<le> length opened"
      if "dk_open C k s (take (4 + len) (read_buf c)) t = Inr (opened, k')" for k s t opened k'
      using dk_open_length [OF that] by simp
    moreover have "min (4 + len) (4 + len + tg) = 4 + len" by simp
    ultimately show ?thesis
      using True
      by (cases "dk_open C (recv_cipher c) (recv_seq c) (take (4 + len) (read_buf c)) (take tg (drop (4 + len) (read_buf c)))")
        (auto simp: try_one_packet_def withS_def Let_def plain_len_bytes_def [symmetric] drop_take
          len_def [symmetric] tg_def [symmetric] not_less bindE_modify bindE_tryR)
  qed
qed

section \<open>The identification line\<close>

definition drop_last_if :: "byte \<Rightarrow> bytes \<Rightarrow> bytes" where
  "drop_last_if b l = (if l \<noteq> [] \<and> last l = b then butlast l else l)"

fun position_of :: "byte \<Rightarrow> bytes \<Rightarrow> nat option" where
  "position_of b [] = None"
| "position_of b (x # xs) = (if x = b then Some 0 else map_option Suc (position_of b xs))"

definition try_ident :: "(conn, unit) act" where
  "try_ident =
     bindE (modify (\<lambda>c. c\<lparr>ident_acc := ident_acc c @ read_buf c, read_buf := []\<rparr>)) (\<lambda>_.
     withS (\<lambda>c.
       case position_of 10 (ident_acc c) of
         None \<Rightarrow> if length (ident_acc c) > 255 then fail (Protocol ''ident too long'') else ret ()
       | Some pos \<Rightarrow>
           if pos > 254 then fail (Protocol ''ident too long'')
           else
             let line = drop_last_if 13 (drop_last_if 10 (take (Suc pos) (ident_acc c)))
             in
               bindE (modify (\<lambda>c. c\<lparr>ident_acc := drop (Suc pos) (ident_acc c)\<rparr>)) (\<lambda>_.
               bindE (tryR (from_utf8 (Protocol ''ident utf8'') line)) (\<lambda>s.
               if \<not> prefix (lit ''SSH-2.0-'') s \<and> \<not> prefix (lit ''SSH-1.99-'') s
               then fail (Protocol ''unsupported ident'')
               else
                 modify (\<lambda>c. c\<lparr>ident_peer := Some s, ident_in_done := True,
                   read_buf := read_buf c @ ident_acc c, ident_acc := []\<rparr>)))))"

end
