(* ===== verification/Conn_Inv.thy ===== *)
theory Conn_Inv
  imports Conn_Step
begin

text \<open>
  What every operation of a connection keeps. The operations change the state through a few kinds
  of elementary updates: sealing a packet, a step of the channel table, a new event, closing, and
  updates of the key-exchange fields. The locale \<open>conn_steps\<close> proves once that a preorder on states
  closed under these updates relates the states before and after each operation; its extension
  \<open>conn_steps_auth\<close> adds the authentication updates and covers the dispatcher. The
  interpretations give the frame, the monotonicity and the invariants used elsewhere.
\<close>

section \<open>Elementary updates\<close>

text \<open>The configuration and input fields, the output fields, and the authentication fields.\<close>

definition env_of where
  "env_of c = (c_role c, c_server c, c_client c, ident_local c, ident_peer c, ident_acc c,
     ident_in_done c, read_buf c, write_soft c, write_hard c, rekey_after_bytes c,
     rekey_after_packets c, c_window c, c_max_packet c)"

definition out_of where
  "out_of c = (write_q c, current_out c, current_is_ident c, ident_out c, write_bytes c)"

definition auth_of where
  "auth_of c = (c_authed c, c_user c, auth_fails c)"

text \<open>Flags that are only ever raised, and the session id, which is set once.\<close>

definition mono_of :: "conn \<Rightarrow> conn \<Rightarrow> bool" where
  "mono_of c c' \<longleftrightarrow> (first_kex_done c \<longrightarrow> first_kex_done c') \<and> (strict_kex c \<longrightarrow> strict_kex c') \<and>
     (session_id c \<noteq> None \<longrightarrow> session_id c' = session_id c)"

lemma mono_of_trans: "mono_of c d \<Longrightarrow> mono_of d e \<Longrightarrow> mono_of c e"
  by (auto simp: mono_of_def)

text \<open>An update of the key-exchange fields, the counters or the generator only.\<close>

definition quiet :: "conn \<Rightarrow> conn \<Rightarrow> bool" where
  "quiet c c' \<longleftrightarrow> env_of c' = env_of c \<and> out_of c' = out_of c \<and> auth_of c' = auth_of c \<and>
     c_closed c' = c_closed c \<and> c_channels c' = c_channels c \<and> c_events c' = c_events c \<and> mono_of c c'"

text \<open>The events that announce a channel the peer has opened.\<close>

fun opens :: "event \<Rightarrow> bool" where
  "opens (OpenSession i) = True"
| "opens (OpenDirectTcpIp i host port) = True"
| "opens e = False"

lemma opens_not [keeps_intro]:
  "\<not> opens (HandshakeComplete u)" "\<not> opens (ChannelOpenConfirmation i)" "\<not> opens (ChannelOpenFailure i r m)"
  "\<not> opens (ChannelData i)" "\<not> opens (ChannelEof i)" "\<not> opens (ChannelClose i)" "\<not> opens (EvDisconnect r m)"
  by simp_all

lemmas quiet_simps = quiet_def env_of_def out_of_def auth_of_def mono_of_def

text \<open>The loop of \<open>send_data\<close> keeps whatever its body keeps.\<close>

lemma ens_send_loop:
  fixes R :: "conn \<Rightarrow> conn \<Rightarrow> bool"
  assumes pre: "act_preorder R" and body: "\<And>chunk. ensures R (enqueue_or_send C i chunk)"
  shows "ensures R (send_data_loop C i data sent)"
proof (rule ensures_gen)
  fix c
  show "R c (snd (send_data_loop C i data sent c))"
    using body
  proof (induction C i data sent c rule: send_data_loop_induct)
    case (step C i data sent c)
    let ?n = "min (conn_outbound_allowance c i) (length data - sent)"
    obtain r c' where e: "enqueue_or_send C i (take ?n (drop sent data)) c = (r, c')" by fastforce
    have sub: "R c c'" using step(2) e by (rule ensuresD)
    have "R c' (snd (send_data_loop C i data (sent + ?n) c'))"
      if "sent < length data" "conn_outbound_allowance c i \<noteq> 0" "r = Inr u" for u
      using step(1) [OF that(1,2) refl] e that(3) step(2) by blast
    then show ?case using sub act_preorder.R_refl [OF pre] act_preorder.R_trans [OF pre]
      by (subst send_data_loop_eq) (fastforce simp: Let_def e split: sum.splits)
  qed
qed

section \<open>The channel operations, for any preorder closed under the updates they use\<close>

locale chan_steps = act_preorder R for R :: "conn \<Rightarrow> conn \<Rightarrow> bool" +
  assumes step_rng: "R c (c\<lparr>c_rng := n\<rparr>)"
    and step_sealed: "10 \<le> length pkt \<Longrightarrow> R c (sealed pkt keys n c)"
    and step_table: "tstep (c_channels c) t \<Longrightarrow> narrow (c_channels c) t \<Longrightarrow> R c (c\<lparr>c_channels := t\<rparr>)"
    and step_event: "\<not> opens e \<Longrightarrow> R c (c\<lparr>c_events := c_events c @ [e]\<rparr>)"
    and step_alloc: "c_authed c \<Longrightarrow> tstep (c_channels c) t \<Longrightarrow> R c (c\<lparr>c_channels := t\<rparr>)"
    and step_open_event: "c_authed c \<Longrightarrow> R c (c\<lparr>c_events := c_events c @ [e]\<rparr>)"
begin

lemma ens_queue [keeps_intro]: "ensures R (queue_msg C p prio)"
  using queue_msg_snd [of C p prio] step_rng step_sealed unfolding ensures_def by metis

lemma ens_rng [keeps_intro]: "ensures R (rng_fill C n)"
  by (rule ensures_gen) (simp add: rng_fill_def step_rng)

lemma ens_event [keeps_intro]: "\<not> opens e \<Longrightarrow> ensures R (push_event e)"
  unfolding push_event_def by (intro ens_modify step_event)

lemma at_table:
  "tstep (c_channels c) (snd (m (c_channels c))) \<Longrightarrow> narrow (c_channels c) (snd (m (c_channels c))) \<Longrightarrow>
   R c (snd (on_table m c))"
  by (auto simp: on_table_def intro!: step_table split: prod.splits)

lemma ens_table: "ensures tstep m \<Longrightarrow> (\<And>t. narrow t (snd (m t))) \<Longrightarrow> ensures R (on_table m)"
  by (simp add: ensures_def at_table)

text \<open>Opening a channel, and announcing it, once authenticated.\<close>

lemma at_alloc: "c_authed c \<Longrightarrow> ch_inv ch \<Longrightarrow> R c (snd (on_table (ct_alloc ch) c))"
  using step_alloc [OF _ tstep_alloc] by (simp add: on_table_def split_def)

lemma at_open:
  assumes "c_authed c" and "ch_inv ch"
  shows "R c (snd (bindE (on_table (ct_alloc ch)) (\<lambda>i. push_event (f i)) c))"
proof -
  let ?d = "snd (on_table (ct_alloc ch) c)"
  have "c_authed ?d" using assms(1) by (simp add: on_table_def split_def)
  then have "R ?d (snd (push_event e ?d))" for e by (simp add: push_event_def modify_def step_open_event)
  with at_alloc [OF assms] R_trans show ?thesis
    by (fastforce simp: bindE_def split: prod.splits sum.splits)
qed

lemma ens_update:
  "(\<And>ch. ch_inv ch \<Longrightarrow> ch_inv (f ch)) \<Longrightarrow> (\<And>ch. local_id (f ch) = local_id ch) \<Longrightarrow>
   ensures R (on_table (ct_update i f))"
  by (intro ens_table ensures_gen tstep_update narrow_update)

lemma ens_free [keeps_intro]: "ensures R (modify (\<lambda>c. c\<lparr>c_channels := ct_free i (c_channels c)\<rparr>))"
  by (intro ens_modify step_table tstep_free narrow_free)

text \<open>An update that keeps the channel invariant because of what the channel is.\<close>

lemma at_update:
  assumes "chan c i = Some ch" and "ch_inv ch \<Longrightarrow> ch_inv (f ch)" and "local_id (f ch) = local_id ch"
  shows "R c (snd (on_table (ct_update i f) c))"
proof -
  have "ct_update i f (c_channels c) = ct_update i (\<lambda>_. f ch) (c_channels c)"
    using assms(1) by (simp add: ct_update_def)
  then show ?thesis using tstep_update_Some [OF assms] narrow_update by (intro at_table) simp_all
qed

subsection \<open>Channel operations\<close>

lemma ens_maybe_adjust [keeps_intro]: "ensures R (maybe_adjust C i)"
  unfolding maybe_adjust_def
  by (rule ens_withS)
    (auto simp: Let_def ret_def R_refl split: option.splits
      intro!: at_bindE at_ignore at_update adjust_inv keeps_intro)

lemma ens_consume_inbound [keeps_intro]: "ensures R (consume_inbound C i n)"
  unfolding consume_inbound_def update_take_inbound
  by (intro keeps_intro ens_update take_inbound_inv)
    (auto simp: take_inbound_eq Let_def split: list.splits)

lemma ens_send_pkt [keeps_intro]: "ensures R (send_channel_data_pkt C r d)"
  unfolding send_channel_data_pkt_def by (intro keeps_intro)

lemma ens_enqueue [keeps_intro]: "ensures R (enqueue_or_send C i chunk)"
  unfolding enqueue_or_send_eq Let_def
  by (intro keeps_intro ens_update) (auto simp: ch_inv_def)

lemma ens_send_data [keeps_intro]: "ensures R (send_data C i data)"
  unfolding send_data_def by (intro keeps_intro ens_send_loop) (rule act_preorder_axioms)

lemma ens_flush_loop: "ensures R (flush_loop C i)"
proof (rule ensures_gen)
  fix c
  show "R c (snd (flush_loop C i c))"
  proof (induction C i c rule: flush_loop.induct)
    case (1 C i c)
    show ?case
    proof (cases "\<exists>ch b remote. flush_round c i = Inr (Some (ch, b, remote))")
      case False
      then show ?thesis
        by (subst flush_loop.simps) (auto simp: R_refl split: sum.splits option.splits)
    next
      case True
      then obtain ch b remote where fr: "flush_round c i = Inr (Some (ch, b, remote))" by blast
      let ?c = "c\<lparr>c_channels := snd (ct_update i (\<lambda>_. ch) (c_channels c))\<rparr>"
      obtain r c' where q: "send_channel_data_pkt C remote b ?c = (r, c')" by fastforce
      have "R c ?c"
        using flush_round_inv [OF fr] by (auto intro!: step_table tstep_update_Some narrow_update)
      moreover have "R ?c c'" using ens_send_pkt q by (rule ensuresD)
      ultimately have "R c c'" by (rule R_trans)
      then show ?thesis
        using 1 [OF fr refl refl refl q [symmetric]] R_trans
        by (subst flush_loop.simps) (fastforce simp: fr q split: sum.splits)
    qed
  qed
qed

lemma ens_flush_pending [keeps_intro]: "ensures R (flush_pending C i)"
  unfolding flush_pending_def by (intro keeps_intro ens_flush_loop)

lemma ens_flush_all [keeps_intro]: "ensures R (flush_pending_all C)"
  unfolding flush_pending_all_def by (intro keeps_intro)

lemma ens_emit_eof [keeps_intro]: "ensures R (emit_eof_if_ready C i)"
  unfolding emit_eof_if_ready_def
  by (rule ens_withS)
    (auto simp: ret_def R_refl split: option.splits intro!: at_bindE at_update wire_eof_inv keeps_intro)

lemma ens_emit_close [keeps_intro]: "ensures R (emit_close_if_ready C i)"
  unfolding emit_close_if_ready_def
  by (rule ens_withS)
    (auto simp: ret_def R_refl split: option.splits intro!: at_withS at_bindE at_update wire_close_inv keeps_intro)

lemma ens_send_eof [keeps_intro]: "ensures R (send_eof C i)"
  unfolding send_eof_def by (intro keeps_intro ens_update) (auto simp: ch_inv_def)

lemma ens_send_close [keeps_intro]: "ensures R (send_close C i)"
  unfolding send_close_def by (intro keeps_intro ens_update) (auto simp: ch_inv_def)

lemma ens_confirm_open [keeps_intro]: "ensures R (confirm_open C i)"
  unfolding confirm_open_def by (intro keeps_intro ens_update) (auto simp: ch_inv_def)

lemma ens_fail_open [keeps_intro]: "ensures R (fail_open C i r m)"
  unfolding fail_open_def by (intro keeps_intro)

lemma ens_open_direct [keeps_intro]: "ensures R (open_direct_tcpip C host port)"
  unfolding open_direct_tcpip_def Let_def
  by (intro ens_withS at_if at_fail at_bindE at_alloc keeps_intro) (simp_all add: ch_inv_def channel_new_def)

subsection \<open>Handlers of channel messages\<close>

lemma ens_push_in:
  assumes "length data < 2 ^ 32"
  shows "ensures R (on_table (ct_update_act i (push_in data)))"
proof (intro ens_table ensures_gen narrow_update_act)
  fix t
  show "tstep t (snd (ct_update_act i (push_in data) t))"
  proof (cases "ct_look t i")
    case None
    then show ?thesis by (simp add: ct_update_act_def tst.R_refl)
  next
    case (Some ch)
    have "local_id (snd (push_in data ch)) = local_id ch" by (simp add: push_in_def Let_def)
    then show ?thesis
      using tstep_update_Some [OF Some push_in_inv [OF _ assms]] by (simp add: ct_update_act_eq [OF Some])
  qed
qed

lemma ens_on_open [keeps_intro]: "ensures R (on_channel_open C p)"
  unfolding on_channel_open_def Let_def
  by (intro ens_withS at_if at_fail at_useE at_open at_ens [OF ens_queue]) (simp_all add: ch_inv_def channel_new_def)

lemma ens_on_open_confirm [keeps_intro]: "ensures R (on_open_confirm C p)"
  unfolding on_open_confirm_def by (intro keeps_intro ens_update) (auto simp: ch_inv_def)

lemma ens_on_open_fail [keeps_intro]: "ensures R (on_open_fail p)"
  unfolding on_open_fail_def by (intro keeps_intro)

lemma ens_on_adjust [keeps_intro]: "ensures R (on_window_adjust C p)"
  unfolding on_window_adjust_def by (intro keeps_intro ens_update) (auto simp: ch_inv_def)

lemma ens_on_data [keeps_intro]: "ensures R (on_channel_data p)"
  unfolding on_channel_data_eq Let_def
  by (intro keeps_intro ens_push_in) (simp add: min_less_iff_disj unat_u32_bound)

lemma ens_on_ext_data [keeps_intro]: "ensures R (on_ext_data p)"
  unfolding on_ext_data_def
  by (intro ens_useE_dep ens_bindE ens_push_in ens_event) (auto dest: p_bytes_u32)

lemma ens_on_eof [keeps_intro]: "ensures R (on_channel_eof p)"
  unfolding on_channel_eof_def by (intro keeps_intro ens_update) (auto simp: ch_inv_def)

lemma ens_on_close [keeps_intro]: "ensures R (on_channel_close C p)"
  unfolding on_channel_close_def by (intro keeps_intro ens_update) (auto simp: ch_inv_def)

lemma ens_on_request [keeps_intro]: "ensures R (on_channel_request C p)"
  unfolding on_channel_request_def by (intro keeps_intro)

lemma ens_on_ping [keeps_intro]: "ensures R (on_ping C p)"
  unfolding on_ping_def by (intro keeps_intro)

lemma ens_on_global [keeps_intro]: "ensures R (on_global_request C p)"
  unfolding on_global_request_def by (intro keeps_intro)

lemma ens_flush_post [keeps_intro]: "ensures R (flush_post_rekey C)"
  unfolding flush_post_rekey_def by (intro keeps_intro)

end

section \<open>Key exchange and dispatch\<close>

locale conn_steps = chan_steps R for R :: "conn \<Rightarrow> conn \<Rightarrow> bool" +
  assumes step_quiet: "quiet c c' \<Longrightarrow> R c c'"
    and step_close: "R c (c\<lparr>c_closed := True\<rparr>)"
begin

lemma ens_quiet: "(\<And>c. quiet c (f c)) \<Longrightarrow> ensures R (modify f)"
  by (intro ens_modify step_quiet)

lemma ens_close [keeps_intro]: "ensures R (modify (\<lambda>c. c\<lparr>c_closed := True\<rparr>))"
  by (intro ens_modify step_close)

lemma ens_start_kex [keeps_intro]: "ensures R (start_kex C)"
  unfolding start_kex_def Let_def by (intro keeps_intro ens_quiet) (simp_all add: quiet_simps)

lemma ens_maybe_rekey [keeps_intro]: "ensures R (maybe_rekey C)"
  unfolding maybe_rekey_def by (intro keeps_intro)

lemma ens_ext_info [keeps_intro]: "ensures R (send_ext_info C)"
  unfolding send_ext_info_def by (intro keeps_intro)

lemma ens_service_req [keeps_intro]: "ensures R (send_service_request C)"
  unfolding send_service_request_def by (intro keeps_intro)

lemma ens_complete [keeps_intro]: "ensures R (try_complete_kex C)"
  unfolding try_complete_kex_def by (intro keeps_intro ens_quiet) (simp_all add: quiet_simps)

lemma ens_send_newkeys [keeps_intro]: "ensures R (send_newkeys C)"
  unfolding send_newkeys_def
  by (intro keeps_intro ens_quiet) (simp_all add: quiet_simps split: option.splits)

lemma ens_on_newkeys [keeps_intro]: "ensures R (on_newkeys C)"
  unfolding on_newkeys_def
  by (intro keeps_intro ens_quiet) (simp_all add: quiet_simps)

lemma ens_send_ecdh [keeps_intro]: "ensures R (send_ecdh_init C)"
  unfolding send_ecdh_init_def by (intro keeps_intro)

lemma ens_on_kexinit [keeps_intro]: "ensures R (on_kexinit C p)"
  unfolding on_kexinit_def Let_def by (intro keeps_intro ens_quiet) (simp_all add: quiet_simps)

lemma at_quiet: "quiet c (f c) \<Longrightarrow> R c (snd (modify f c))"
  by (simp add: modify_def step_quiet)

lemma ens_finish_kex [keeps_intro]: "ensures R (finish_kex C q_c q_s sh)"
  unfolding finish_kex_def Let_def split_def
  by (intro ens_withS at_tryR at_bindE at_quiet ens_bindE ens_tryR ens_quiet)
    (simp_all add: quiet_simps split: option.splits)

lemma ens_on_ecdh_init [keeps_intro]: "ensures R (on_ecdh_init C p)"
  unfolding on_ecdh_init_def Let_def by (intro keeps_intro ens_quiet) (simp_all add: quiet_simps)

lemma ens_on_ecdh_reply [keeps_intro]: "ensures R (on_ecdh_reply C p)"
  unfolding on_ecdh_reply_def Let_def by (intro keeps_intro ens_quiet) (simp_all add: quiet_simps)

lemma ens_on_service [keeps_intro]: "ensures R (on_service_request C p)"
  unfolding on_service_request_def by (intro keeps_intro)

lemma ens_on_accept [keeps_intro]: "ensures R (on_service_accept C)"
  unfolding on_service_accept_def by (intro keeps_intro)

lemma ens_disconnect [keeps_intro]: "ensures R (disconnect C r m)"
proof -
  have "modify (\<lambda>c. c\<lparr>c_closed := True, c_events := c_events c @ [e]\<rparr>) =
      bindE (modify (\<lambda>c. c\<lparr>c_closed := True\<rparr>)) (\<lambda>_. push_event e)" for e
    by (simp add: act_defs push_event_def fun_eq_iff)
  then show ?thesis unfolding disconnect_def Let_def by (simp only:) (intro keeps_intro)
qed

text \<open>The dispatcher, but for the two messages that authenticate.\<close>

lemma ens_payload_noauth:
  assumes "p ! 0 \<noteq> SSH_MSG_USERAUTH_REQUEST" and "p ! 0 \<noteq> SSH_MSG_USERAUTH_SUCCESS"
  shows "ensures R (handle_payload C p)"
proof (cases "p = []")
  case True
  then show ?thesis by (simp add: handle_payload_def index_def ensures_def bindE_tryR R_refl)
next
  case False
  show ?thesis using assms unfolding handle_payload_def index_first [OF False] by (intro keeps_intro) auto
qed

end

text \<open>With the updates of an authentication attempt.\<close>

locale conn_steps_auth = conn_steps R for R :: "conn \<Rightarrow> conn \<Rightarrow> bool" +
  assumes step_auth: "R c (c\<lparr>c_authed := True, c_user := u, kex_blocks_app := False\<rparr>)"
    and step_auth_fail: "R c (c\<lparr>auth_fails := auth_fails c + 1\<rparr>)"
begin

lemma ens_auth [keeps_intro]:
  "ensures R (modify (\<lambda>c. c\<lparr>c_authed := True, c_user := u, kex_blocks_app := False\<rparr>))"
  by (intro ens_modify step_auth)

lemma ens_auth_fail_count [keeps_intro]: "ensures R (modify (\<lambda>c. c\<lparr>auth_fails := auth_fails c + 1\<rparr>))"
  by (intro ens_modify step_auth_fail)

lemma ens_auth_fail [keeps_intro]: "ensures R (auth_fail C cfg)"
  unfolding auth_fail_def by (intro keeps_intro)

lemma ens_on_userauth [keeps_intro]: "ensures R (on_userauth_request C p)"
  unfolding on_userauth_request_def by (intro keeps_intro)

lemma ens_payload [keeps_intro]: "ensures R (handle_payload C p)"
  unfolding handle_payload_def Let_def by (intro keeps_intro)

lemma ens_accept: "ensures R (accept_payload C n p)"
  unfolding accept_payload_def Let_def
  by (intro ens_bindE ens_tryR ens_withS_all ens_if ens_fail ens_payload ens_quiet) (simp_all add: quiet_simps)

end

section \<open>Every operation keeps the frame and the invariants\<close>

text \<open>
  \<open>evolves\<close> collects what holds of every operation but reading and handing out bytes: the
  configuration and the input are untouched, the output only grows at its end and stays accounted
  for, the channel table keeps its invariant, events are appended, flags are only raised and the
  session id is set once.
\<close>

definition evolves :: "conn \<Rightarrow> conn \<Rightarrow> bool" where
  "evolves c c' \<longleftrightarrow> env_of c' = env_of c \<and> grows c c' \<and> tstep (c_channels c) (c_channels c') \<and>
     prefix (c_events c) (c_events c') \<and> mono_of c c' \<and> (c_closed c \<longrightarrow> c_closed c') \<and>
     (c_authed c \<longrightarrow> c_authed c')"

lemmas evolves_simps = evolves_def grows_def out_inv_def env_of_def mono_of_def tst.R_refl

interpretation ev: conn_steps_auth evolves
proof (unfold_locales, goal_cases)
  case 1
  show ?case by (simp add: evolves_simps)
next
  case (2 c d e)
  then show ?case
    using gr.R_trans [of c d e] tst.R_trans [of "c_channels c" "c_channels d" "c_channels e"]
      prefix_order.trans [of "c_events c" "c_events d" "c_events e"] mono_of_trans [of c d e]
    unfolding evolves_def by simp
next
  case (4 pkt c keys n)
  then have "pkt \<noteq> []" by auto
  then have "grows c (sealed pkt keys n c)"
    using out_inv_sealed [of pkt c keys n] by (simp add: grows_def sealed_def)
  then show ?case by (simp add: evolves_def sealed_def env_of_def mono_of_def tst.R_refl)
next
  case (9 c d)
  then have "out_inv d = out_inv c" by (simp add: quiet_def out_of_def out_inv_def)
  with 9 show ?case by (simp add: quiet_def out_of_def auth_of_def evolves_def grows_def tst.R_refl)
qed (simp_all add: evolves_simps)

text \<open>No operation but the two that authenticate touches the authentication state.\<close>

interpretation au: conn_steps "\<lambda>c c'. auth_of c' = auth_of c"
  by unfold_locales (simp_all add: auth_of_def quiet_def sealed_def)

text \<open>
  The channel operations touch neither the key exchange nor the receiving side nor the
  authentication state.
\<close>

definition kex_of where
  "kex_of c = (c_kex c, c_pending_keys c, sent_kexinit c, sent_newkeys c, recv_newkeys c,
     kex_blocks_app c, first_kex_done c, strict_kex c, session_id c, recv_seq c, recv_cipher c)"

interpretation kf: chan_steps
  "\<lambda>c c'. kex_of c' = kex_of c \<and> auth_of c' = auth_of c \<and> c_closed c' = c_closed c"
  by unfold_locales (simp_all add: kex_of_def auth_of_def sealed_def)

text \<open>What a successful \<open>finish_kex\<close> leaves.\<close>

lemma finish_kex_last_h: "finish_kex C q_c q_s sh c = (Inr u, c') \<Longrightarrow> last_h c' \<noteq> None"
  by (auto simp: finish_kex_def Let_def split_def withS_def bindE_Inr tryR_def modify_def)

text \<open>The two sides of the line, which \<open>finish_kex\<close> leaves alone.\<close>

definition link_of where
  "link_of c = (out_of c, read_buf c, send_cipher c, send_seq c, recv_cipher c, recv_seq c, strict_kex c,
     recv_newkeys c, c_kex c)"

lemma finish_kex_link: "finish_kex C q_c q_s sh c = (Inr u, c') \<Longrightarrow> link_of c' = link_of c"
  by (auto simp: finish_kex_def Let_def split_def withS_def bindE_Inr tryR_def modify_def link_of_def out_of_def)

end
