(* ===== verification/Conn_Run.thy ===== *)
theory Conn_Run
  imports Conn_Inv
begin

text \<open>
  \<open>process_in\<close> of \<^verbatim>\<open>src/src/core/conn.rs\<close> and the life of a connection: the calls an adapter makes,
  as a step relation, the states reachable by them and the invariants of those states.
\<close>

section \<open>What one packet does\<close>

lemma unpad_no_panic: "5 \<le> length pkt \<Longrightarrow> unpad len pkt = Inl e \<Longrightarrow> e \<noteq> Panic"
  by (auto simp: unpad_eq Let_def split: if_splits)

lemma unpad_nonempty: "5 \<le> length pkt \<Longrightarrow> unpad len pkt = Inr p \<Longrightarrow> p \<noteq> []"
  by (auto simp: unpad_eq Let_def split: if_splits)

text \<open>
  Three outcomes of \<open>try_one_packet\<close>: not enough bytes yet, which changes nothing; a packet that is
  refused, its bytes taken off the buffer or not; a payload handed on.
\<close>

lemma try_one_packet_cases:
  assumes "try_one_packet C c = (r, c')"
  obtains (more) "r = Inr False" "c' = c"
    | (bad) e n keys where "r = Inl e" "e \<noteq> Panic" "c' = c\<lparr>read_buf := drop n (read_buf c), recv_cipher := keys\<rparr>"
    | (payload) tot keys p u where "8 \<le> tot" "tot \<le> length (read_buf c)" "p \<noteq> []"
        "accept_payload C tot p (c\<lparr>read_buf := drop tot (read_buf c), recv_cipher := keys\<rparr>) = (u, c')"
        "r = map_sum id (\<lambda>_. True) u"
proof -
  have same: "c = c\<lparr>read_buf := drop 0 (read_buf c), recv_cipher := recv_cipher c\<rparr>" by simp
  define len where "len = be_len (plain_len_bytes C c)"
  define tg where "tg = tag_len (dk_kind (recv_cipher c))"
  let ?tot = "4 + len + tg"
  let ?body = "take (4 + len) (read_buf c)" and ?tag = "take tg (drop (4 + len) (read_buf c))"
  show ?thesis
  proof (cases "length (read_buf c) < 4 \<or> len < 4 \<or> len > MAX_PACKET \<or> length (read_buf c) < ?tot")
    case True
    with assms have "r = Inr False \<and> c' = c \<or> (\<exists>e. r = Inl e \<and> e \<noteq> Panic \<and> c' = c)"
      by (auto simp: try_one_packet_eq len_def tg_def Let_def withS_def ret_def fail_def split: if_splits)
    with more bad same show ?thesis by metis
  next
    case False
    then have big: "8 \<le> ?tot" "?tot \<le> length (read_buf c)" by auto
    have eq: "try_one_packet C c = (case dk_open C (recv_cipher c) (recv_seq c) ?body ?tag of
          Inl e \<Rightarrow> (Inl e, c\<lparr>read_buf := drop ?tot (read_buf c)\<rparr>)
        | Inr (opened, keys) \<Rightarrow>
            bindE (tryR (unpad len (plain_len_bytes C c @ drop 4 opened @ ?tag)))
              (\<lambda>p. bindE (accept_payload C ?tot p) (\<lambda>_. ret True))
              (c\<lparr>read_buf := drop ?tot (read_buf c), recv_cipher := keys\<rparr>))"
      using False
      by (simp add: try_one_packet_eq len_def tg_def Let_def withS_def bindE_modify
          bindE_tryR split: sum.splits prod.splits)
    show ?thesis
    proof (cases "dk_open C (recv_cipher c) (recv_seq c) ?body ?tag")
      case (Inl e)
      then have "r = Inl e \<and> c' = c\<lparr>read_buf := drop ?tot (read_buf c), recv_cipher := recv_cipher c\<rparr>"
        using assms eq by auto
      with bad dk_open_no_panic [OF Inl] show ?thesis by blast
    next
      case (Inr x)
      obtain opened keys where x: "x = (opened, keys)" by (cases x)
      let ?c = "c\<lparr>read_buf := drop ?tot (read_buf c), recv_cipher := keys\<rparr>"
      have "length opened = 4 + len" using dk_open_length [OF Inr [unfolded x]] big by simp
      then have five: "5 \<le> length (plain_len_bytes C c @ drop 4 opened @ ?tag)"
        using False by (simp add: plain_len_bytes_def)
      show ?thesis
      proof (cases "unpad len (plain_len_bytes C c @ drop 4 opened @ ?tag)")
        case (Inl e)
        with assms eq Inr x have "r = Inl e" "c' = ?c" by (simp_all add: bindE_def tryR_def)
        with bad unpad_no_panic [OF five Inl] show ?thesis by blast
      next
        case p: (Inr p)
        obtain u d where u: "accept_payload C ?tot p ?c = (u, d)" by fastforce
        with assms eq Inr x p have "c' = d" "r = map_sum id (\<lambda>_. True) u"
          by (auto simp: bindE_def tryR_def ret_def split: sum.splits)
        with payload [OF big unpad_nonempty [OF five p]] u show ?thesis by blast
      qed
    qed
  qed
qed

lemma try_one_packet_shrinks:
  assumes "try_one_packet C c = (Inr True, c')"
  shows "length (read_buf c') < length (read_buf c)"
  using assms
proof (cases rule: try_one_packet_cases)
  case (payload tot keys p u)
  then have "read_buf c' = drop tot (read_buf c)"
    using ensuresD [OF ev.ens_accept payload(4)] by (simp add: evolves_def env_of_def)
  with payload(1,2) show ?thesis by simp
qed simp_all

section \<open>\<open>process_in\<close>\<close>

text \<open>\<open>while self.try_one_packet()? {}\<close>, which ends because each round takes a packet off the buffer.\<close>

function process_loop :: "crypto \<Rightarrow> (conn, unit) act" where
  "process_loop C c =
     (case try_one_packet C c of
        (Inl e, c') \<Rightarrow> (Inl e, c')
      | (Inr b, c') \<Rightarrow> if b then process_loop C c' else (Inr (), c'))"
  by pat_completeness auto
termination
  by (relation "measure (\<lambda>(C, c). length (read_buf c))") (auto dest!: sym [of "(_, _)"] try_one_packet_shrinks)

declare process_loop.simps [simp del]

definition process_in :: "crypto \<Rightarrow> (conn, unit) act" where
  "process_in C =
     bindE (withS (\<lambda>c.
       if \<not> ident_in_done c
       then bindE try_ident (\<lambda>_. withS (\<lambda>c.
         if ident_in_done c then bindE (modify (maybe_start_kex C)) (\<lambda>_. ret True) else ret False))
       else ret True)) (\<lambda>go_on.
     if go_on then
       bindE (process_loop C) (\<lambda>_.
       bindE (maybe_rekey C) (\<lambda>_.
       flush_pending_all C))
     else ret ())"

section \<open>The invariant of a connection\<close>

text \<open>
  The output is accounted for, the channel table is well formed, the configuration of the role is
  there, and the peer's identification is known once it has been read.
\<close>

definition conn_inv :: "conn \<Rightarrow> bool" where
  "conn_inv c \<longleftrightarrow> out_inv c \<and> tbl_inv (c_channels c) \<and>
     (c_role c = Server \<longrightarrow> c_server c \<noteq> None) \<and> (c_role c = Client \<longrightarrow> c_client c \<noteq> None) \<and>
     (ident_in_done c \<longrightarrow> ident_peer c \<noteq> None)"

lemma evolves_inv: "evolves c c' \<Longrightarrow> conn_inv c \<Longrightarrow> conn_inv c'"
  by (auto simp: conn_inv_def evolves_def env_of_def grows_def tstep_def)

lemma inv_read_buf [simp]:
  "conn_inv (c\<lparr>read_buf := b, recv_cipher := k\<rparr>) = conn_inv c"
  "conn_inv (c\<lparr>read_buf := b\<rparr>) = conn_inv c"
  by (simp_all add: conn_inv_def out_inv_def)

lemma try_ident_inv: "conn_inv c \<Longrightarrow> conn_inv (snd (try_ident c))"
  by (auto simp: try_ident_def act_defs Let_def conn_inv_def out_inv_def from_utf8_def
      split: option.splits)

section \<open>Handing out bytes\<close>

lemma maybe_start_evolves: "evolves c (maybe_start_kex C c)"
  using ensures_sndD [OF ev.ens_start_kex] by (simp add: maybe_start_kex_def ev.R_refl)

lemma maybe_start_inv: "conn_inv c \<Longrightarrow> conn_inv (maybe_start_kex C c)"
  by (rule evolves_inv [OF maybe_start_evolves])

text \<open>
  The part of \<open>consume_out\<close> before the key exchange is started: taking \<open>n\<close> bytes off the front.
\<close>

definition take_front :: "nat \<Rightarrow> bytes \<Rightarrow> conn \<Rightarrow> conn" where
  "take_front n b c =
     (let k = min n (length b);
          c1 = (if k = length b then c\<lparr>current_out := None, current_is_ident := False\<rparr>
                else c\<lparr>current_out := Some (drop k b)\<rparr>)
      in if \<not> current_is_ident c then c1\<lparr>write_bytes := write_bytes c1 - k\<rparr> else c1)"

lemma consume_out_eq:
  "consume_out C n c =
     (if n = 0 then c
      else case current_out (pull_current_out c) of
        None \<Rightarrow> pull_current_out c
      | Some b \<Rightarrow>
          let d = take_front n b (pull_current_out c)
          in if current_out d = None \<and> current_is_ident (pull_current_out c) then maybe_start_kex C d else d)"
  by (simp add: consume_out_def take_front_def Let_def split: option.splits)

lemma take_front_stream:
  assumes "out_inv c" and "current_out c = Some b"
  shows "out_inv (take_front n b c) \<and> out_stream (take_front n b c) = drop (min n (length b)) (out_stream c)"
  using assms
  by (auto simp: take_front_def out_inv_def out_stream_def opt_len_def Let_def min_def)

text \<open>The invariant of a state with the same configuration and table rests on its output alone.\<close>

lemma conn_inv_out:
  "conn_inv c \<Longrightarrow> env_of d = env_of c \<Longrightarrow> c_channels d = c_channels c \<Longrightarrow> out_inv d \<Longrightarrow> conn_inv d"
  by (simp add: conn_inv_def env_of_def)

lemma pull_frame: "env_of (pull_current_out c) = env_of c" "c_channels (pull_current_out c) = c_channels c"
  by (simp_all add: pull_current_out_def env_of_def Let_def split: list.splits)

lemma pull_inv: "conn_inv c \<Longrightarrow> conn_inv (pull_current_out c)"
  by (rule conn_inv_out [of c]) (simp_all add: pull_frame out_inv_pull conn_inv_def)

lemma take_front_inv: "conn_inv c \<Longrightarrow> current_out c = Some b \<Longrightarrow> conn_inv (take_front n b c)"
  using take_front_stream [of c b n] by (auto simp: conn_inv_def take_front_def Let_def)

text \<open>
  Handing out: what \<open>peek_out\<close> shows is the front of the stream, and consuming \<open>n\<close> bytes of it removes
  exactly those, except that draining the identification may append the first KEXINIT.
\<close>

lemma consume_out_stream:
  assumes "out_inv c" and "fst (peek_out c) = Some b" and "n \<le> length b"
  shows "prefix b (out_stream c) \<and> out_inv (consume_out C n c) \<and>
    (\<exists>more. out_stream (consume_out C n c) = drop n (out_stream c) @ more \<and>
       (sent_kexinit c \<longrightarrow> more = []))"
proof -
  let ?p = "pull_current_out c"
  have b: "current_out ?p = Some b" "b \<noteq> []"
    using assms(2) by (auto simp: peek_out_def Let_def nonempty_def split: if_splits option.splits)
  have p: "out_inv ?p" "out_stream ?p = out_stream c" using assms(1) by (simp_all add: out_inv_pull out_stream_pull)
  have pre: "prefix b (out_stream c)" using pull_current_front [OF assms(1)] b by (auto simp: prefix_def)
  have kx: "sent_kexinit (take_front n b ?p) = sent_kexinit c"
    by (simp add: take_front_def pull_current_out_def Let_def split: list.splits)
  let ?d = "take_front n b ?p"
  have d: "out_inv ?d" "out_stream ?d = drop n (out_stream c)"
    using take_front_stream [OF p(1) b(1), of n] p(2) assms(3) by (simp_all add: min_absorb1)
  have m: "out_inv (maybe_start_kex C ?d)" "prefix (out_stream ?d) (out_stream (maybe_start_kex C ?d))"
    using maybe_start_evolves [of ?d C] d(1) grows_stream by (auto simp: evolves_def grows_def)
  show ?thesis
  proof (cases "n = 0")
    case True
    with pre assms(1) show ?thesis by (simp add: consume_out_def)
  next
    case False
    show ?thesis
    proof (cases "current_out ?d = None \<and> current_is_ident ?p")
      case True
      with False b have "consume_out C n c = maybe_start_kex C ?d" by (simp add: consume_out_eq Let_def)
      moreover have "maybe_start_kex C ?d = ?d" if "sent_kexinit c" using that kx by (simp add: maybe_start_kex_def)
      ultimately show ?thesis using pre m d by (auto simp: prefix_def)
    next
      case nk: False
      with False b have "consume_out C n c = ?d" by (auto simp: consume_out_eq Let_def)
      with pre d show ?thesis by simp
    qed
  qed
qed

section \<open>Reachable states\<close>

text \<open>
  The calls an adapter can make on a connection, in any order and with any arguments; bytes from
  the socket arrive through \<open>read_buf_mut\<close>. An error returned by a call does not end the relation: what
  is shown of reachable states holds even for an adapter that goes on after an error.
\<close>

inductive conn_step :: "crypto \<Rightarrow> conn \<Rightarrow> conn \<Rightarrow> bool" for C where
  step_feed: "conn_step C c (c\<lparr>read_buf := read_buf c @ data\<rparr>)"
| step_process: "conn_step C c (snd (process_in C c))"
| step_peek: "conn_step C c (snd (peek_out c))"
| step_consume: "conn_step C c (consume_out C n c)"
| step_pop: "conn_step C c (snd (pop_event c))"
| step_rr: "conn_step C c (snd (round_robin_ids c))"
| step_inbound: "conn_step C c (snd (consume_inbound C i n c))"
| step_data: "conn_step C c (snd (send_data C i data c))"
| step_eof: "conn_step C c (snd (send_eof C i c))"
| step_send_close: "conn_step C c (snd (send_close C i c))"
| step_confirm: "conn_step C c (snd (confirm_open C i c))"
| step_fail: "conn_step C c (snd (fail_open C i reason msg c))"
| step_open: "conn_step C c (snd (open_direct_tcpip C host port c))"
| step_disconnect: "conn_step C c (snd (disconnect C reason msg c))"

inductive conn_reach :: "crypto \<Rightarrow> conn \<Rightarrow> bool" for C where
  reach_server: "conn_reach C (conn_server C cfg n)"
| reach_client: "conn_reach C (conn_client C ccfg n)"
| reach_step: "conn_reach C c \<Longrightarrow> conn_step C c c' \<Longrightarrow> conn_reach C c'"

inductive_cases conn_stepE: "conn_step C c c'"

section \<open>What every call keeps\<close>

text \<open>
  A preorder that is closed under the elementary updates of the operations, and under those of
  reading, handing out and popping, relates the states before and after every call.
\<close>

locale call_steps = conn_steps_auth R for R :: "conn \<Rightarrow> conn \<Rightarrow> bool" +
  assumes step_input: "R c (c\<lparr>read_buf := b, recv_cipher := keys\<rparr>)"
    and step_ident: "R c (snd (try_ident c))"
    and step_pull: "R c (pull_current_out c)"
    and step_front: "current_out c = Some b \<Longrightarrow> R c (take_front n b c)"
    and step_pop: "R c (snd (pop_event c))"
    and step_rr: "R c (snd (round_robin_ids c))"
begin

lemma ens_packet: "ensures R (try_one_packet C)"
proof (rule ensures_gen)
  fix c
  obtain r c' where t: "try_one_packet C c = (r, c')" by fastforce
  then have "R c c'"
  proof (cases rule: try_one_packet_cases)
    case (payload tot keys p u)
    show ?thesis using R_trans [OF step_input ensuresD [OF ens_accept payload(4)]] .
  qed (simp_all add: R_refl step_input)
  with t show "R c (snd (try_one_packet C c))" by simp
qed

lemma at_loop: "R c (snd (process_loop C c))"
proof (induction C c rule: process_loop.induct)
  case (1 C c)
  obtain r c' where t: "try_one_packet C c = (r, c')" by fastforce
  have "R c c'" using ens_packet t by (rule ensuresD)
  then show ?case
    using 1 [OF t [symmetric]] R_trans
    by (subst process_loop.simps) (fastforce simp: t split: sum.splits)
qed

lemma at_start: "R c (maybe_start_kex C c)"
  using ensures_sndD [OF ens_start_kex] by (simp add: maybe_start_kex_def R_refl)

lemma ens_process_in: "ensures R (process_in C)"
  unfolding process_in_def
  by (intro ens_bindE ens_withS_all ens_if ens_ret ens_modify at_start ensures_gen [of _ try_ident]
      step_ident ensures_gen [of _ "process_loop C"] at_loop ens_maybe_rekey ens_flush_all)

lemma at_consume: "R c (consume_out C n c)"
  using step_front R_trans [OF step_pull step_front] R_trans [OF _ at_start] step_pull R_refl
  unfolding consume_out_eq Let_def by (auto split: option.splits)

lemma at_peek: "R c (snd (peek_out c))"
  by (simp add: peek_out_def Let_def step_pull)

lemma at_feed: "R c (c\<lparr>read_buf := b\<rparr>)"
  using step_input [where c = c and b = b and keys = "recv_cipher c"] by simp

lemma at_call: "conn_step C c c' \<Longrightarrow> R c c'"
  by (induction rule: conn_step.induct)
    (intro at_feed at_consume at_peek step_pop step_rr ensures_sndD [OF ens_process_in]
      ensures_sndD [OF ens_consume_inbound] ensures_sndD [OF ens_send_data] ensures_sndD [OF ens_send_eof]
      ensures_sndD [OF ens_send_close] ensures_sndD [OF ens_confirm_open] ensures_sndD [OF ens_fail_open]
      ensures_sndD [OF ens_open_direct] ensures_sndD [OF ens_disconnect])+

end

text \<open>The invariant.\<close>

definition kept :: "conn \<Rightarrow> conn \<Rightarrow> bool" where
  "kept c c' \<longleftrightarrow> (conn_inv c \<longrightarrow> conn_inv c')"

lemma kept_evolves: "evolves c c' \<Longrightarrow> kept c c'"
  by (simp add: kept_def evolves_inv)

interpretation ki: call_steps kept
proof (unfold_locales, goal_cases)
  case (2 c d e)
  then show ?case by (simp add: kept_def)
next
  case (13 c b keys)
  show ?case by (simp add: kept_def)
next
  case (14 c)
  show ?case by (simp add: kept_def try_ident_inv)
next
  case (15 c)
  show ?case by (simp add: kept_def pull_inv)
next
  case (16 c b n)
  then show ?case by (simp add: kept_def take_front_inv)
next
  case (17 c)
  show ?case by (simp add: kept_def pop_event_def conn_inv_def out_inv_def split: list.splits)
next
  case (18 c)
  show ?case by (simp add: kept_def round_robin_ids_def Let_def conn_inv_def out_inv_def)
qed (rule kept_evolves, (rule ev.R_refl ev.step_rng ev.step_sealed ev.step_table ev.step_event
    ev.step_alloc ev.step_open_event ev.step_quiet ev.step_close ev.step_auth ev.step_auth_fail; assumption))+

lemma conn_step_inv: "conn_step C c c' \<Longrightarrow> conn_inv c \<Longrightarrow> conn_inv c'"
  using ki.at_call by (simp add: kept_def)

lemma try_one_packet_inv: "conn_inv c \<Longrightarrow> conn_inv (snd (try_one_packet C c))"
  using ensures_sndD [OF ki.ens_packet] by (simp add: kept_def)

lemma conn_inv_start:
  "conn_inv (conn_server C cfg n)" "conn_inv (conn_client C ccfg n)"
proof -
  have start: "conn_inv c \<Longrightarrow> conn_inv (snd (start_kex C c))" for c
    using evolves_inv [OF ensures_sndD [OF ev.ens_start_kex]] .
  show "conn_inv (conn_server C cfg n)" "conn_inv (conn_client C ccfg n)"
    unfolding conn_server_def conn_client_def Let_def
    by (intro start; simp add: conn_inv_def out_inv_def queue_ident_def conn_new_def tbl_inv_new opt_len_def)+
qed

lemma reach_inv: "conn_reach C c \<Longrightarrow> conn_inv c"
  by (induction rule: conn_reach.induct) (auto intro: conn_inv_start conn_step_inv)

text \<open>\<open>lasting\<close>: flags that are only raised and the session id, which is set once.\<close>

definition lasting :: "conn \<Rightarrow> conn \<Rightarrow> bool" where
  "lasting c c' \<longleftrightarrow> mono_of c c' \<and> (c_closed c \<longrightarrow> c_closed c') \<and> (c_authed c \<longrightarrow> c_authed c')"

lemma lasting_try_ident: "lasting c (snd (try_ident c))"
  by (simp add: lasting_def mono_of_def try_ident_def act_defs Let_def from_utf8_def split: option.splits)

interpretation la: call_steps lasting
  by unfold_locales
    (auto simp: lasting_def mono_of_def sealed_def quiet_def auth_of_def lasting_try_ident [unfolded lasting_def mono_of_def]
      pull_current_out_def take_front_def pop_event_def round_robin_ids_def Let_def split: list.splits)

text \<open>
  The gate: before authentication there is no channel, and no opened channel is announced.
\<close>

definition gate :: "conn \<Rightarrow> bool" where
  "gate c \<longleftrightarrow> c_authed c \<or> dom (chan c) = {} \<and> \<not> (\<exists>e \<in> set (c_events c). opens e)"

definition gated :: "conn \<Rightarrow> conn \<Rightarrow> bool" where
  "gated c c' \<longleftrightarrow> (gate c \<longrightarrow> gate c')"

lemma try_ident_frame [simp]:
  "c_authed (snd (try_ident c)) = c_authed c" "c_channels (snd (try_ident c)) = c_channels c"
  "c_events (snd (try_ident c)) = c_events c"
  by (simp_all add: try_ident_def act_defs Let_def from_utf8_def split: option.splits)

interpretation ga: call_steps gated
  by unfold_locales
    (auto simp: gated_def gate_def sealed_def quiet_def auth_of_def narrow_def
      pull_current_out_def take_front_def pop_event_def round_robin_ids_def Let_def split: list.splits)

lemma gate_start: "gate (conn_server C cfg n)" "gate (conn_client C ccfg n)"
proof -
  have start: "gate c \<Longrightarrow> gate (snd (start_kex C c))" for c
    using ensures_sndD [OF ga.ens_start_kex] by (simp add: gated_def)
  have "dom (ct_look (table_new m)) = {}" for m by (auto simp: ct_look_def table_new_def)
  then show "gate (conn_server C cfg n)" "gate (conn_client C ccfg n)"
    unfolding conn_server_def conn_client_def Let_def
    by (intro start; simp add: gate_def queue_ident_def conn_new_def)+
qed

lemma reach_gate: "conn_reach C c \<Longrightarrow> gate c"
  by (induction rule: conn_reach.induct) (use gate_start ga.at_call in \<open>auto simp: gated_def\<close>)

section \<open>The loop stops only at an incomplete packet\<close>

text \<open>\<open>process_in\<close> by its three ways: identification known, just read, or not yet complete.\<close>

lemma process_in_ident:
  assumes "\<not> ident_in_done c" and "try_ident c = (r, d)"
  shows "process_in C c = (case r of Inl e \<Rightarrow> (Inl e, d)
    | Inr _ \<Rightarrow> if ident_in_done d then bindE (process_loop C) (\<lambda>_. bindE (maybe_rekey C)
        (\<lambda>_. flush_pending_all C)) (maybe_start_kex C d) else (Inr (), d))"
  using assms
  by (simp add: process_in_def bindE_def [of "withS _"] bindE_def [of try_ident] withS_def bindE_modify ret_def
      split: sum.splits)

lemma process_in_known:
  "ident_in_done c \<Longrightarrow> process_in C c =
     bindE (process_loop C) (\<lambda>_. bindE (maybe_rekey C) (\<lambda>_. flush_pending_all C)) c"
  by (simp add: process_in_def bindE_def [of "withS _"] withS_def ret_def)

text \<open>What is left in the read buffer is no packet: a part of a length field, or less than it announces.\<close>

definition incomplete :: "crypto \<Rightarrow> conn \<Rightarrow> bool" where
  "incomplete C c \<longleftrightarrow> length (read_buf c) < 4 \<or>
     (let len = be_len (plain_len_bytes C c)
      in 4 \<le> len \<and> len \<le> MAX_PACKET \<and> length (read_buf c) < 4 + len + tag_len (dk_kind (recv_cipher c)))"

lemma try_one_packet_waits:
  assumes "try_one_packet C c = (Inr False, c')"
  shows "c' = c \<and> incomplete C c"
proof -
  have "c' = c" using assms by (cases rule: try_one_packet_cases) (auto simp: map_sum_def split: sum.splits)
  moreover have "incomplete C c"
    using assms
    by (auto simp: try_one_packet_eq incomplete_def withS_def Let_def fail_def ret_def bindE_Inr split: if_splits)
  ultimately show ?thesis ..
qed

lemma process_loop_incomplete: "process_loop C c = (Inr u, c') \<Longrightarrow> incomplete C c'"
proof (induction C c rule: process_loop.induct)
  case (1 C c)
  obtain r d where t: "try_one_packet C c = (r, d)" by fastforce
  show ?case
  proof (cases "r = Inr True")
    case True
    with 1(1) [OF t [symmetric], of True] 1(2) t show ?thesis by (simp add: process_loop.simps [of C c])
  next
    case False
    with 1(2) t have "r = Inr False" "d = c'"
      by (auto simp: process_loop.simps [of C c] split: sum.splits)
    with t try_one_packet_waits [of C c d] show ?thesis by simp
  qed
qed

text \<open>What follows the loop in \<open>process_in\<close> leaves the input side alone.\<close>

definition input_of :: "conn \<Rightarrow> bytes \<times> direction_keys \<times> u32" where
  "input_of c = (read_buf c, recv_cipher c, recv_seq c)"

interpretation rv: chan_steps "\<lambda>c c'. input_of c' = input_of c"
  by unfold_locales (auto simp: input_of_def sealed_def)

lemma input_rekey: "ensures (\<lambda>c c'. input_of c' = input_of c) (maybe_rekey C)"
  unfolding maybe_rekey_def start_kex_def Let_def
  by (intro keeps_intro rv.ens_modify) (simp_all add: input_of_def)

lemma loop_incomplete:
  assumes "bindE (process_loop C) (\<lambda>_. bindE (maybe_rekey C) (\<lambda>_. flush_pending_all C)) c = (Inr u, c')"
  shows "incomplete C c'"
proof -
  obtain a d where d: "process_loop C c = (Inr a, d)"
    and run: "bindE (maybe_rekey C) (\<lambda>_. flush_pending_all C) d = (Inr u, c')"
    using assms unfolding bindE_Inr [of "process_loop C"] by blast
  have "ensures (\<lambda>c c'. input_of c' = input_of c) (bindE (maybe_rekey C) (\<lambda>_. flush_pending_all C))"
    by (intro rv.ens_bindE input_rekey rv.ens_flush_all)
  then have "input_of c' = input_of d" using run by (rule ensuresD)
  with process_loop_incomplete [OF d] show ?thesis
    by (simp add: incomplete_def plain_len_bytes_def input_of_def)
qed

section \<open>Properties\<close>

text \<open>Claim C7. In every reachable state queued_write_bytes is the number of bytes still to be handed
  to the socket, wants_write says whether there are any, and is_finished holds exactly when the
  connection is closed and none are left.\<close>

theorem reachable_accounting:
  assumes "conn_reach C c"
  shows "queued_write_bytes c = length (out_stream c) \<and> (wants_write c \<longleftrightarrow> out_stream c \<noteq> []) \<and>
    (is_finished c \<longleftrightarrow> c_closed c \<and> out_stream c = [])"
  using reach_inv [OF assms] queued_write_bytes_stream [of c] wants_write_stream [of c]
  by (auto simp: conn_inv_def is_finished_def)

theorem reachable_accounting_witness:
  "queued_write_bytes (consume_out demo_crypto 3 (conn_server demo_crypto demo_server_cfg 0)) =
   length (out_stream (consume_out demo_crypto 3 (conn_server demo_crypto demo_server_cfg 0)))"
  using reachable_accounting [OF reach_step [OF reach_server step_consume]] by blast

text \<open>Claim C6. In every reachable state the channel table is well formed: every channel knows its id,
  the byte counters agree with the queues, queued inbound data plus the remaining receive window
  never exceed the announced window, the half-close flags are in order, there are at most
  max_channels channels, and round_robin_ids lists each of them exactly once.\<close>

theorem reachable_channels:
  assumes "conn_reach C c"
  shows "tbl_inv (c_channels c) \<and> finite (dom (chan c)) \<and>
    card (dom (chan c)) \<le> unat (max_channels (c_channels c)) \<and>
    distinct (fst (round_robin_ids c)) \<and> set (fst (round_robin_ids c)) = dom (chan c)"
proof -
  have inv: "tbl_inv (c_channels c)" using reach_inv [OF assms] by (simp add: conn_inv_def)
  then show ?thesis
    using tbl.bounded [of "c_channels c"] iter_ids_dom [OF inv]
    by (auto simp: tbl_inv_def round_robin_ids_def Let_def)
qed

theorem reachable_channels_witness:
  "tbl_inv (c_channels (snd (process_in demo_crypto (conn_client demo_crypto demo_client_cfg 0))))"
  using reachable_channels [OF reach_step [OF reach_client step_process]] by blast

lemma payload_appends_output:
  assumes "out_inv c" and "handle_payload C p c = (r, c')"
  shows "out_inv c' \<and> prefix (out_stream c) (out_stream c') \<and> prefix (c_events c) (c_events c') \<and>
    read_buf c' = read_buf c"
  using ensuresD [OF ev.ens_payload assms(2)] assms(1) grows_stream [of c c']
  by (simp add: evolves_def grows_def env_of_def)

text \<open>Claim C20. No call ever changes a session id once set, or takes back authentication, closing,
  the completion of the first key exchange or strict mode.\<close>

theorem step_lasting:
  assumes "conn_step C c c'"
  shows "(session_id c \<noteq> None \<longrightarrow> session_id c' = session_id c) \<and> (c_authed c \<longrightarrow> c_authed c') \<and>
    (c_closed c \<longrightarrow> c_closed c') \<and> (first_kex_done c \<longrightarrow> first_kex_done c') \<and> (strict_kex c \<longrightarrow> strict_kex c')"
  using la.at_call [OF assms] by (auto simp: lasting_def mono_of_def)

theorem step_lasting_witness:
  "session_id (snd (process_in demo_crypto (demo_server\<lparr>session_id := Some [1], c_authed := True\<rparr>))) = Some [1] \<and>
   c_authed (snd (process_in demo_crypto (demo_server\<lparr>session_id := Some [1], c_authed := True\<rparr>)))"
  using step_lasting [OF step_process [of demo_crypto "demo_server\<lparr>session_id := Some [1], c_authed := True\<rparr>"]]
  by simp

text \<open>Claim C22. When process_in returns without an error and the identification has been read, no
  complete packet is left in the read buffer: it holds less than a length field, or an
  acceptable length field and fewer bytes than the packet it announces with its tag.\<close>

theorem process_in_complete:
  assumes "process_in C c = (Inr u, c')" and "ident_in_done c'"
  shows "length (read_buf c') < 4 \<or>
    (let len = be_len (plain_len_bytes C c')
     in 4 \<le> len \<and> len \<le> MAX_PACKET \<and> length (read_buf c') < 4 + len + tag_len (dk_kind (recv_cipher c')))"
proof (cases "ident_in_done c")
  case True
  with assms(1) process_in_known have "incomplete C c'" by (metis loop_incomplete)
  then show ?thesis by (simp add: incomplete_def)
next
  case False
  obtain r d where "try_ident c = (r, d)" by fastforce
  with process_in_ident [OF False this, of C] assms have "incomplete C c'"
    by (auto split: sum.splits if_splits intro: loop_incomplete)
  then show ?thesis by (simp add: incomplete_def)
qed

theorem process_in_complete_witness:
  "length (read_buf (demo_server\<lparr>ident_in_done := True, read_buf := [0, 0, 0, 12, 9]\<rparr>)) < 4 \<or>
   (let len = be_len (plain_len_bytes demo_crypto (demo_server\<lparr>ident_in_done := True, read_buf := [0, 0, 0, 12, 9]\<rparr>))
    in 4 \<le> len \<and> len \<le> MAX_PACKET \<and>
      length (read_buf (demo_server\<lparr>ident_in_done := True, read_buf := [0, 0, 0, 12, 9]\<rparr>)) < 4 + len +
        tag_len (dk_kind (recv_cipher (demo_server\<lparr>ident_in_done := True, read_buf := [0, 0, 0, 12, 9]\<rparr>))))"
proof -
  let ?c = "demo_server\<lparr>ident_in_done := True, read_buf := [0, 0, 0, 12, 9]\<rparr>"
  have len: "be_len (plain_len_bytes demo_crypto ?c) = 12"
    by (simp add: plain_len_bytes_def demo_simps be_len_def from_be32_def)
  have "try_one_packet demo_crypto ?c = (Inr False, ?c)"
    unfolding try_one_packet_eq withS_def Let_def len
    by (simp add: demo_simps MAX_PACKET_def ret_def)
  then have "process_loop demo_crypto ?c = (Inr (), ?c)" by (subst process_loop.simps) simp
  moreover have "maybe_rekey demo_crypto ?c = (Inr (), ?c)"
    by (simp add: maybe_rekey_def withS_def ret_def demo_simps)
  moreover have "flush_pending_all demo_crypto ?c = (Inr (), ?c)"
    by (simp add: flush_pending_all_def withS_def ret_def demo_simps table_new_def iter_ids_def)
  moreover have "ident_in_done ?c" by simp
  ultimately have run: "process_in demo_crypto ?c = (Inr (), ?c)"
    using process_in_known [of ?c demo_crypto] by (simp add: bindE_def)
  show ?thesis by (rule process_in_complete [OF run]) simp
qed

end
