(* ===== verification/Conn_Deliver.thy ===== *)
theory Conn_Deliver
  imports Conn_Run
begin

text \<open>
  From one connection to the other: a message sealed by \<open>queue_msg\<close> on one end is, when its bytes are
  in front of the read buffer of an end whose receiving keys and packet number are in step, the
  payload \<open>try_one_packet\<close> hands on there. Channel data sent by \<open>send_channel_data_pkt\<close> is thus
  appended unchanged to the inbound queue of the peer's channel.
\<close>

section \<open>Sealing\<close>

text \<open>The padding \<open>queue_msg\<close> draws for a payload.\<close>

definition pad_for :: "conn \<Rightarrow> bytes \<Rightarrow> nat" where
  "pad_for c p = padding_len (length p) (block_size (dk_kind (send_cipher c))) (is_aead (dk_kind (send_cipher c)))"

definition padding_for :: "crypto \<Rightarrow> conn \<Rightarrow> bytes \<Rightarrow> bytes" where
  "padding_for C c p = map (os_rng C) [c_rng c..<c_rng c + pad_for c p]"

lemma length_padding_for: "length (padding_for C c p) = pad_for c p"
  by (simp add: padding_for_def)

lemma pad_for_bounds: "4 \<le> pad_for c p" "pad_for c p < 20"
  using padding_len_kind [of "length p" "dk_kind (send_cipher c)"] by (simp_all add: pad_for_def)

lemma queue_msg_seals:
  assumes "p \<noteq> []" and "prio \<or> write_bytes c < write_hard c"
    and "dk_seal C (send_cipher c) (send_seq c) (packet_plain p (padding_for C c p))
      (replicate (tag_len (dk_kind (send_cipher c))) 0) = Inr (ct, tag, keys)"
  shows "queue_msg C p prio c = (Inr (), sealed (ct @ tag) keys (c_rng c + pad_for c p) c)"
  using assms dk_seal_length [OF assms(3)] length_padding_for [of C c p]
  by (auto simp: queue_msg_def act_defs rng_fill_def Let_def sealed_def pad_for_def padding_for_def not_le
      split: if_splits)

section \<open>Cutting the padding off\<close>

lemma be_len_bytes: "n < 2 ^ 32 \<Longrightarrow> be_len (be_bytes32 (of_nat n)) = n"
  unfolding be_len_def be_bytes32_nth by (rule unat_of_nat_u32)

lemma take_packet_plain: "take 4 (packet_plain p padding) = be_bytes32 (of_nat (1 + length p + length padding))"
  by (simp add: packet_plain_def)

lemma drop_packet_plain: "drop 5 (packet_plain p padding) = p @ padding"
  by (simp add: packet_plain_def)

lemma nth_packet_plain: "packet_plain p padding ! 4 = of_nat (length padding)"
  by (simp add: packet_plain_def nth_append)

lemma unpad_packet_plain:
  assumes "p \<noteq> []" and "4 \<le> length padding" and "length padding < 256"
  shows "unpad (1 + length p + length padding) (packet_plain p padding @ t) = Inr p"
proof -
  have "unat (of_nat (length padding) :: byte) = length padding"
    using assms(3) by (simp add: unat_of_nat take_bit_nat_eq_self)
  moreover have "(packet_plain p padding @ t) ! 4 = of_nat (length padding)"
    using nth_packet_plain [of p padding] by (simp add: nth_append)
  moreover have "drop 5 (packet_plain p padding @ t) = p @ padding @ t"
    using drop_packet_plain [of p padding] by simp
  ultimately show ?thesis using assms by (simp add: unpad_def Let_def Suc_le_eq)
qed

section \<open>One packet across\<close>

text \<open>The receiving end \<open>b\<close> has the keys and the packet number the sending end \<open>a\<close> will use next.\<close>

definition in_step :: "conn \<Rightarrow> conn \<Rightarrow> bool" where
  "in_step a b \<longleftrightarrow> recv_cipher b = send_cipher a \<and> recv_seq b = send_seq a"

text \<open>What \<open>try_one_packet\<close> does on a sealed packet in front of the buffer.\<close>

lemma open_sealed:
  assumes s: "dk_open C k seq ct tag = Inr (packet_plain p padding, keys)"
      "length ct = length (packet_plain p padding)" "length tag = tag_len (dk_kind k)"
      "dk_decrypt_length C k seq (take 4 ct) = take 4 (packet_plain p padding)"
    and p: "p \<noteq> []" "4 \<le> length padding" "length padding < 20" "length p + 32 \<le> MAX_PACKET"
    and b: "recv_cipher b = k" "recv_seq b = seq" "read_buf b = (ct @ tag) @ r"
  shows "try_one_packet C b = bindE (accept_payload C (length (ct @ tag)) p) (\<lambda>_. ret True)
    (b\<lparr>read_buf := r, recv_cipher := keys\<rparr>)"
proof -
  let ?plain = "packet_plain p padding"
  define len where "len = 1 + length p + length padding"
  define tl where "tl = tag_len (dk_kind k)"
  have len: "length ?plain = 4 + len" "4 \<le> len" "len \<le> MAX_PACKET" "len < 2 ^ 32"
    using p by (auto simp: len_def MAX_PACKET_def)
  have plain: "plain_len_bytes C b = take 4 ?plain"
    using s(2,4) len(1) b by (simp add: plain_len_bytes_def)
  then have blen: "be_len (plain_len_bytes C b) = len"
    unfolding take_packet_plain len_def [symmetric] using be_len_bytes [OF len(4)] by simp
  have cut: "take (4 + len) (read_buf b) = ct" "take tl (drop (4 + len) (read_buf b)) = tag"
    "drop (4 + len + tl) (read_buf b) = r" using b(3) s(2,3) len(1) by (simp_all add: tl_def)
  have "unpad len ((take 4 ?plain @ drop 4 ?plain) @ tag) = Inr p"
    unfolding append_take_drop_id len_def using p by (intro unpad_packet_plain) auto
  then have up: "unpad len (take 4 ?plain @ drop 4 ?plain @ tag) = Inr p" by (simp only: append_assoc)
  have ll: "\<not> length (read_buf b) < 4" "\<not> (len < 4 \<or> MAX_PACKET < len)"
    "\<not> length (read_buf b) < 4 + len + tl" "4 + len + tl = length (ct @ tag)"
    using b(3) s(2,3) len by (auto simp: tl_def)
  show ?thesis
    unfolding try_one_packet_eq withS_def blen Let_def b(1,2) tl_def [symmetric]
    by (simp only: ll(1-3) if_False cut bindE_modify s(1) bindE_tryR prod.case plain up)
      (simp add: ll(4) [symmetric] cut(3) del: length_append)
qed

lemma deliver_sealed:
  assumes ok: "dk_ok C (send_cipher a)" and p: "p \<noteq> []" "length p + 32 \<le> MAX_PACKET"
    and room: "prio \<or> write_bytes a < write_hard a"
  shows "\<exists>pkt keys n. queue_msg C p prio a = (Inr (), sealed pkt keys n a) \<and> dk_ok C keys \<and>
    (\<forall>b r. in_step a b \<longrightarrow> read_buf b = pkt @ r \<longrightarrow>
       try_one_packet C b = bindE (accept_payload C (length pkt) p) (\<lambda>_. ret True)
         (b\<lparr>read_buf := r, recv_cipher := keys\<rparr>))"
proof -
  let ?k = "send_cipher a" and ?pad = "padding_for C a p"
  let ?plain = "packet_plain p ?pad" and ?t = "tag_len (dk_kind (send_cipher a))"
  have pad: "4 \<le> length ?pad" "length ?pad < 20" by (simp_all add: length_padding_for pad_for_bounds)
  then have "4 \<le> length ?plain" "length ?plain < 2 ^ 32" using p(2) by (simp_all add: MAX_PACKET_def)
  from rc_dk.unseal_seal [OF ok this, of "replicate ?t 0" "send_seq a"] obtain ct tag keys where
    s: "dk_seal C ?k (send_seq a) ?plain (replicate ?t 0) = Inr (ct, tag, keys)"
      "dk_open C ?k (send_seq a) ct tag = Inr (?plain, keys)" "length ct = length ?plain"
      "length tag = ?t" "dk_decrypt_length C ?k (send_seq a) (take 4 ct) = take 4 ?plain" "dk_ok C keys"
    by auto
  have "try_one_packet C b = bindE (accept_payload C (length (ct @ tag)) p) (\<lambda>_. ret True)
      (b\<lparr>read_buf := r, recv_cipher := keys\<rparr>)" if "in_step a b" "read_buf b = (ct @ tag) @ r" for b r
    using open_sealed [OF s(2-5) p(1) pad p(2) _ _ that(2)] that(1) by (simp add: in_step_def)
  then show ?thesis using queue_msg_seals [OF p(1) room s(1)] s(6) by blast
qed

section \<open>Channel data across\<close>

lemma on_channel_data_put:
  assumes "length data < 2 ^ 32"
  shows "on_channel_data (put_bytes (put_u32 [SSH_MSG_CHANNEL_DATA] i) data) =
    bindE (on_table (ct_update_act i (push_in data))) (\<lambda>_. push_event (ChannelData i))"
proof -
  let ?p = "put_bytes (put_u32 [SSH_MSG_CHANNEL_DATA] i) data"
  have eq: "?p = SSH_MSG_CHANNEL_DATA # be_bytes32 i @ be_bytes32 (of_nat (length data)) @ data"
    by (simp add: put_bytes_def put_u32_def)
  have i: "from_be32 (?p ! 1) (?p ! 2) (?p ! 3) (?p ! 4) = i"
    by (simp add: eq be_bytes32_def from_be32_be_bytes32)
  have n: "from_be32 (?p ! 5) (?p ! 6) (?p ! 7) (?p ! 8) = of_nat (length data)"
    by (simp add: eq be_bytes32_def from_be32_be_bytes32)
  have "length ?p = 9 + length data" "drop 9 ?p = data" by (simp_all add: eq)
  then show ?thesis
    unfolding on_channel_data_eq Let_def i n unat_of_nat_u32 [OF assms] by simp
qed

lemma handle_channel_data: "handle_payload C (put_bytes (put_u32 [SSH_MSG_CHANNEL_DATA] i) data) =
    on_channel_data (put_bytes (put_u32 [SSH_MSG_CHANNEL_DATA] i) data)"
  by (simp add: handle_payload_def put_bytes_def put_u32_def)

lemma accept_channel_data:
  assumes "length data < 2 ^ 32" and "\<not> strict_kex c \<or> first_kex_done c"
    and "chan c i = Some ch" and "length data \<le> unat (recv_window ch)"
  shows "\<exists>ch'. accept_payload C n (put_bytes (put_u32 [SSH_MSG_CHANNEL_DATA] i) data) c =
      (Inr (), c\<lparr>recv_seq := recv_seq c + 1, bytes_io := bytes_io c + of_nat n,
        packets_io := packets_io c + 1, c_channels := snd (ct_update i (\<lambda>_. ch') (c_channels c)),
        c_events := c_events c @ [ChannelData i]\<rparr>) \<and>
    push_in data ch = (Inr (), ch')"
proof -
  obtain ch' where ch': "push_in data ch = (Inr (), ch')" using push_in_ok [OF assms(1), of ch] assms(4) by blast
  have first: "index (put_bytes (put_u32 [SSH_MSG_CHANNEL_DATA] i) data) 0 = Inr SSH_MSG_CHANNEL_DATA"
    by (simp add: put_bytes_def put_u32_def)
  have "ct_update_act i (push_in data) (c_channels c) = (Inr (), snd (ct_update i (\<lambda>_. ch') (c_channels c)))"
    using ct_update_act_eq [OF assms(3), of "push_in data"] ch' by simp
  then show ?thesis using ch' assms(2)
    by (auto simp: accept_payload_def Let_def first handle_channel_data on_channel_data_put [OF assms(1)]
        bindE_modify withS_def bindE_def tryR_def on_table_def push_event_def modify_def)
qed

lemma chan_update:
  "chan c i = Some ch \<Longrightarrow> ct_look (snd (ct_update i (\<lambda>_. d) (c_channels c))) i = Some d"
  by (auto simp: ct_update_def ct_look_def split: if_splits)

lemma receive_channel_data:
  assumes "length data < 2 ^ 32" and "\<not> strict_kex b \<or> first_kex_done b" and "chan b i = Some ch"
    and "length data \<le> unat (recv_window ch)"
  shows "\<exists>b' ch'. bindE (accept_payload C n (put_bytes (put_u32 [SSH_MSG_CHANNEL_DATA] i) data)) (\<lambda>_. ret True)
      (b\<lparr>read_buf := r, recv_cipher := keys\<rparr>) = (Inr True, b') \<and> chan b' i = Some ch' \<and>
    in_q ch' = in_q ch @ [data] \<and> unat (recv_window ch') = unat (recv_window ch) - length data \<and>
    c_events b' = c_events b @ [ChannelData i] \<and> read_buf b' = r \<and> recv_cipher b' = keys \<and>
    recv_seq b' = recv_seq b + 1"
proof -
  let ?b = "b\<lparr>read_buf := r, recv_cipher := keys\<rparr>"
  obtain ch' where acc: "accept_payload C n (put_bytes (put_u32 [SSH_MSG_CHANNEL_DATA] i) data) ?b =
    (Inr (), ?b\<lparr>recv_seq := recv_seq b + 1, bytes_io := bytes_io b + of_nat n,
      packets_io := packets_io b + 1, c_channels := snd (ct_update i (\<lambda>_. ch') (c_channels b)),
      c_events := c_events b @ [ChannelData i]\<rparr>)" and ch': "push_in data ch = (Inr (), ch')"
    using accept_channel_data [OF assms(1), of ?b i ch C n] assms(2-4) by auto
  have "in_q ch' = in_q ch @ [data]" "unat (recv_window ch') = unat (recv_window ch) - length data"
    using ch' assms(4) unfolding push_in_ok [OF assms(1)]
    by (auto simp: unat_sub_u32 word_le_nat_alt unat_of_nat_u32 [OF assms(1)])
  with acc show ?thesis by (simp add: bindE_ok ret_def chan_update [OF assms(3)])
qed

section \<open>Flushing what waits\<close>

text \<open>The connection after channel data packets with the payloads \<open>ds\<close> have been sealed one after the other.\<close>

primrec emitted :: "crypto \<Rightarrow> u32 \<Rightarrow> bytes list \<Rightarrow> conn \<Rightarrow> conn" where
  "emitted C r [] c = c"
| "emitted C r (d # ds) c = emitted C r ds (snd (send_channel_data_pkt C r d c))"

text \<open>Sealing does not look at the channels.\<close>

lemma send_pkt_table:
  "snd (send_channel_data_pkt C r d (c\<lparr>c_channels := t\<rparr>)) = (snd (send_channel_data_pkt C r d c))\<lparr>c_channels := t\<rparr>"
  by (cases c) (auto simp: send_channel_data_pkt_def queue_msg_def withS_def fail_def Let_def bindE_def rng_fill_def
      tryR_def modify_def split: sum.splits)

lemma emitted_table: "emitted C r ds (c\<lparr>c_channels := t\<rparr>) = (emitted C r ds c)\<lparr>c_channels := t\<rparr>"
  by (induction ds arbitrary: c) (simp_all add: send_pkt_table)

definition drained :: "crypto \<Rightarrow> u32 \<Rightarrow> conn \<Rightarrow> channel \<Rightarrow> conn \<Rightarrow> bool" where
  "drained C i c ch c' \<longleftrightarrow> (\<exists>r ds ch'. remote_id ch = Some r \<and> chan c' i = Some ch' \<and>
     c' = (emitted C r ds c)\<lparr>c_channels := c_channels c'\<rparr> \<and>
     concat (pending_out ch) = concat ds @ concat (pending_out ch') \<and>
     (\<forall>d \<in> set ds. length d \<le> unat (max_remote_packet ch)) \<and>
     unat (send_window ch') + length (concat ds) = unat (send_window ch) \<and>
     (pending_out ch' = [] \<or> hd (pending_out ch') = [] \<or> send_window ch' = 0 \<or> write_soft c' \<le> queued_write_bytes c'))"

lemma drained_step:
  assumes "flush_round c i = Inr (Some (ch1, b, r))" and "chan c i = Some ch"
    and c1: "c1 = snd (send_channel_data_pkt C r b (c\<lparr>c_channels := t\<rparr>))"
    and "drained C i c1 ch1 c'"
  shows "drained C i c ch c'"
proof -
  note b = flush_round_takes [OF assms(1,2)]
  obtain ds ch' where d: "remote_id ch1 = Some r" "chan c' i = Some ch'"
    "c' = (emitted C r ds c1)\<lparr>c_channels := c_channels c'\<rparr>"
    "concat (pending_out ch1) = concat ds @ concat (pending_out ch')"
    "\<forall>d \<in> set ds. length d \<le> unat (max_remote_packet ch1)"
    "unat (send_window ch') + length (concat ds) = unat (send_window ch1)"
    "pending_out ch' = [] \<or> hd (pending_out ch') = [] \<or> send_window ch' = 0 \<or> write_soft c' \<le> queued_write_bytes c'"
    using assms(4) b unfolding drained_def by auto
  have "emitted C r ds c1 = (emitted C r (b # ds) c)\<lparr>c_channels := t\<rparr>"
    by (simp add: c1 send_pkt_table emitted_table)
  with d(3) have "c' = (emitted C r (b # ds) c)\<lparr>c_channels := c_channels c'\<rparr>" by simp
  with b d show ?thesis
    unfolding drained_def by (intro exI [of _ r] exI [of _ "b # ds"] exI [of _ ch']) auto
qed

lemma flush_loop_drains:
  assumes "dk_ok C (send_cipher c)" and "write_soft c \<le> write_hard c" and "chan c i = Some ch"
    and "open_confirmed ch" and "\<not> sent_eof ch" and "remote_id ch = Some r"
    and "unat (max_remote_packet ch) + 64 \<le> MAX_PACKET"
  shows "fst (flush_loop C i c) = Inr () \<and> drained C i c ch (snd (flush_loop C i c))"
  using assms
proof (induction C i c arbitrary: ch rule: flush_loop.induct)
  case (1 C i c)
  show ?case
  proof (cases "\<exists>ch1 b remote. flush_round c i = Inr (Some (ch1, b, remote))")
    case False
    obtain x where x: "flush_round c i = Inr x" unfolding flush_round_eq by blast
    with False have stop: "flush_round c i = Inr None" by (cases x) auto
    then have "flush_loop C i c = (Inr (), c)" by (subst flush_loop.simps) simp
    moreover have "drained C i c ch c"
      using flush_round_stops [OF stop 1(4-7)] 1(4,7)
      unfolding drained_def by (intro exI [of _ r] exI [of _ "[]"] exI [of _ ch]) simp
    ultimately show ?thesis by simp
  next
    case True
    then obtain ch1 b remote where fr: "flush_round c i = Inr (Some (ch1, b, remote))" by blast
    note b = flush_round_takes [OF fr 1(4)]
    have r: "remote = r" using b 1(7) by simp
    let ?t = "snd (ct_update i (\<lambda>_. ch1) (c_channels c))"
    let ?c = "c\<lparr>c_channels := ?t\<rparr>"
    let ?p = "put_bytes (put_u32 [SSH_MSG_CHANNEL_DATA] r) b"
    have "write_bytes ?c < write_hard ?c"
      using flush_round_room [OF fr] 1(3) by (simp add: queued_write_bytes_def)
    moreover have "?p \<noteq> []" "length ?p + 32 \<le> MAX_PACKET" using b 1(8) by (auto simp: put_bytes_def put_u32_def)
    ultimately obtain pkt keys n where q: "queue_msg C ?p False ?c = (Inr (), sealed pkt keys n ?c)" "dk_ok C keys"
      using deliver_sealed [of C ?c ?p False] 1(2) by auto
    let ?c1 = "sealed pkt keys n ?c"
    have run: "flush_loop C i c = flush_loop C i ?c1"
      by (subst flush_loop.simps) (simp add: fr r send_channel_data_pkt_def q)
    have ch1: "chan ?c1 i = Some ch1" using chan_update [OF 1(4), of ch1] by (simp add: sealed_def)
    have "dk_ok C (send_cipher ?c1)" "write_soft ?c1 \<le> write_hard ?c1" using q(2) 1(3) by (simp_all add: sealed_def)
    moreover have "open_confirmed ch1" "\<not> sent_eof ch1" "remote_id ch1 = Some r"
      "unat (max_remote_packet ch1) + 64 \<le> MAX_PACKET" using b 1(5-8) by auto
    ultimately have ih: "fst (flush_loop C i ?c1) = Inr () \<and> drained C i ?c1 ch1 (snd (flush_loop C i ?c1))"
      using 1(1) [OF fr refl refl refl, of "Inr ()" ?c1 "()"] ch1 by (simp add: r send_channel_data_pkt_def q)
    have "?c1 = snd (send_channel_data_pkt C remote b ?c)" by (simp add: r send_channel_data_pkt_def q)
    from drained_step [OF fr 1(4) this] ih show ?thesis by (simp add: run)
  qed
qed

section \<open>Properties\<close>

text \<open>Claim C2. A payload queued on one end is appended as one sealed packet to its output, and when
  these bytes stand in front of the read buffer of an end that has the same keys and packet
  number, try_one_packet hands on exactly that payload, leaves exactly the bytes behind the
  packet and moves to the same next key state.\<close>

theorem packet_delivery:
  assumes "dk_ok C (send_cipher a)" and "p \<noteq> []" and "length p + 32 \<le> MAX_PACKET"
    and "prio \<or> write_bytes a < write_hard a"
  shows "\<exists>pkt a'. queue_msg C p prio a = (Inr (), a') \<and> out_stream a' = out_stream a @ pkt \<and>
    send_seq a' = send_seq a + 1 \<and> dk_ok C (send_cipher a') \<and>
    (\<forall>b r. in_step a b \<longrightarrow> read_buf b = pkt @ r \<longrightarrow>
       try_one_packet C b = bindE (accept_payload C (length pkt) p) (\<lambda>_. ret True)
         (b\<lparr>read_buf := r, recv_cipher := send_cipher a'\<rparr>))"
proof -
  obtain pkt keys n where q: "queue_msg C p prio a = (Inr (), sealed pkt keys n a)" "dk_ok C keys"
    "\<forall>b r. in_step a b \<longrightarrow> read_buf b = pkt @ r \<longrightarrow>
       try_one_packet C b = bindE (accept_payload C (length pkt) p) (\<lambda>_. ret True)
         (b\<lparr>read_buf := r, recv_cipher := keys\<rparr>)"
    using deliver_sealed [OF assms] by blast
  have "out_stream (sealed pkt keys n a) = out_stream a @ pkt"
    "send_seq (sealed pkt keys n a) = send_seq a + 1" "send_cipher (sealed pkt keys n a) = keys"
    by (simp_all add: sealed_def out_stream_def)
  with q show ?thesis by (intro exI [of _ pkt] exI [of _ "sealed pkt keys n a"]) simp
qed

lemma demo_dk_ok: "dk_ok demo_crypto (send_cipher demo_client)"
  using demo_crypto_ok by (simp add: dk_ok_def demo_simps)

theorem packet_delivery_witness:
  "\<exists>pkt a'. queue_msg demo_crypto [SSH_MSG_IGNORE] True demo_client = (Inr (), a') \<and>
    try_one_packet demo_crypto (demo_server\<lparr>read_buf := pkt\<rparr>) =
      bindE (accept_payload demo_crypto (length pkt) [SSH_MSG_IGNORE]) (\<lambda>_. ret True)
        (demo_server\<lparr>read_buf := [], recv_cipher := send_cipher a'\<rparr>)"
proof -
  obtain pkt a' where d: "queue_msg demo_crypto [SSH_MSG_IGNORE] True demo_client = (Inr (), a')"
    "\<forall>b r. in_step demo_client b \<longrightarrow> read_buf b = pkt @ r \<longrightarrow> try_one_packet demo_crypto b =
       bindE (accept_payload demo_crypto (length pkt) [SSH_MSG_IGNORE]) (\<lambda>_. ret True)
         (b\<lparr>read_buf := r, recv_cipher := send_cipher a'\<rparr>)"
    using packet_delivery [OF demo_dk_ok, of "[SSH_MSG_IGNORE]" True] by (auto simp: MAX_PACKET_def)
  have "in_step demo_client (demo_server\<lparr>read_buf := pkt\<rparr>)" by (simp add: in_step_def demo_simps)
  with d show ?thesis by fastforce
qed

text \<open>Claim C14. Channel data sealed by one end is received by an in-step end as one new chunk at the
  end of the inbound queue of that channel, with the receive window reduced by its length and
  one ChannelData event, and both ends stay in step.\<close>

theorem channel_data_delivery:
  assumes "dk_ok C (send_cipher a)" and "length data + 64 \<le> MAX_PACKET" and "write_bytes a < write_hard a"
  shows "\<exists>pkt a'. send_channel_data_pkt C i data a = (Inr (), a') \<and> out_stream a' = out_stream a @ pkt \<and>
    (\<forall>b ch r. in_step a b \<longrightarrow> read_buf b = pkt @ r \<longrightarrow> \<not> strict_kex b \<or> first_kex_done b \<longrightarrow>
       chan b i = Some ch \<longrightarrow> length data \<le> unat (recv_window ch) \<longrightarrow>
       (\<exists>b' ch'. try_one_packet C b = (Inr True, b') \<and> chan b' i = Some ch' \<and>
          in_q ch' = in_q ch @ [data] \<and> unat (recv_window ch') = unat (recv_window ch) - length data \<and>
          c_events b' = c_events b @ [ChannelData i] \<and> read_buf b' = r \<and> in_step a' b'))"
proof -
  let ?p = "put_bytes (put_u32 [SSH_MSG_CHANNEL_DATA] i) data"
  have len: "length data < 2 ^ 32" using assms(2) by (simp add: MAX_PACKET_def)
  have "?p \<noteq> []" "length ?p + 32 \<le> MAX_PACKET" using assms(2) by (auto simp: put_bytes_def put_u32_def)
  then obtain pkt keys n where q: "queue_msg C ?p False a = (Inr (), sealed pkt keys n a)"
    and d: "\<And>b r. in_step a b \<Longrightarrow> read_buf b = pkt @ r \<Longrightarrow> try_one_packet C b =
      bindE (accept_payload C (length pkt) ?p) (\<lambda>_. ret True) (b\<lparr>read_buf := r, recv_cipher := keys\<rparr>)"
    using deliver_sealed [OF assms(1)] assms(3) by meson
  have s: "out_stream (sealed pkt keys n a) = out_stream a @ pkt" "send_seq (sealed pkt keys n a) = send_seq a + 1"
    "send_cipher (sealed pkt keys n a) = keys" by (simp_all add: sealed_def out_stream_def)
  show ?thesis
    using q s d receive_channel_data [OF len]
    unfolding send_channel_data_pkt_def in_step_def
    by (intro exI [of _ pkt] exI [of _ "sealed pkt keys n a"]) (fastforce simp: in_step_def)
qed

theorem channel_data_delivery_witness:
  "\<exists>pkt a' b' ch'. send_channel_data_pkt demo_crypto 0 [1, 2, 3] demo_client = (Inr (), a') \<and>
    try_one_packet demo_crypto (demo_server\<lparr>read_buf := pkt, c_channels := demo_table\<rparr>) = (Inr True, b') \<and>
    chan b' 0 = Some ch' \<and> in_q ch' = [[1, 2, 3]]"
proof -
  have "write_bytes demo_client < write_hard demo_client" "length [1 :: byte, 2, 3] + 64 \<le> MAX_PACKET"
    by (simp_all add: demo_simps MAX_PACKET_def)
  with channel_data_delivery [OF demo_dk_ok, of "[1, 2, 3]" 0] obtain pkt a' where
    q: "send_channel_data_pkt demo_crypto 0 [1, 2, 3] demo_client = (Inr (), a')" and
    d: "\<forall>b ch r. in_step demo_client b \<longrightarrow> read_buf b = pkt @ r \<longrightarrow> \<not> strict_kex b \<or> first_kex_done b \<longrightarrow>
       chan b 0 = Some ch \<longrightarrow> length [1 :: byte, 2, 3] \<le> unat (recv_window ch) \<longrightarrow>
       (\<exists>b' ch'. try_one_packet demo_crypto b = (Inr True, b') \<and> chan b' 0 = Some ch' \<and>
          in_q ch' = in_q ch @ [[1, 2, 3]])" by blast
  let ?b = "demo_server\<lparr>read_buf := pkt, c_channels := demo_table\<rparr>"
  have "in_step demo_client ?b" "read_buf ?b = pkt @ []" "\<not> strict_kex ?b" "chan ?b 0 = Some demo_channel"
    "length [1 :: byte, 2, 3] \<le> unat (recv_window demo_channel)" "in_q demo_channel = []"
    by (simp_all add: in_step_def demo_simps demo_channel_def channel_new_def)
  with d q show ?thesis by fastforce
qed

text \<open>Claim C40. Outside a key exchange, flush_pending seals the data that waits on an open channel as
  channel data packets, from the front and in order, none longer than the packet limit of the
  peer, charges the send window by exactly their length, and stops only when nothing waits (or
  an empty chunk does), the window is used up, or the output has reached its soft limit. The
  cipher in use opens what it seals, the soft limit is at most the hard one and the packet limit
  of the peer leaves room for the packet header.\<close>

theorem flush_pending_drains:
  assumes "dk_ok C (send_cipher c)" and "write_soft c \<le> write_hard c" and "\<not> kex_blocks_app c"
    and "chan c i = Some ch" and "open_confirmed ch" and "\<not> sent_eof ch" and "remote_id ch = Some r"
    and "unat (max_remote_packet ch) + 64 \<le> MAX_PACKET"
  shows "\<exists>c' ds ch'. flush_pending C i c = (Inr (), c') \<and> chan c' i = Some ch' \<and>
    c' = (emitted C r ds c)\<lparr>c_channels := c_channels c'\<rparr> \<and>
    concat (pending_out ch) = concat ds @ concat (pending_out ch') \<and>
    (\<forall>d \<in> set ds. length d \<le> unat (max_remote_packet ch)) \<and>
    unat (send_window ch') + length (concat ds) = unat (send_window ch) \<and>
    (pending_out ch' = [] \<or> hd (pending_out ch') = [] \<or> send_window ch' = 0 \<or> write_soft c' \<le> queued_write_bytes c')"
proof -
  obtain x c' where run: "flush_loop C i c = (x, c')" by fastforce
  with flush_loop_drains [OF assms(1,2,4-8)] have "x = Inr ()" "drained C i c ch c'" by simp_all
  moreover have "flush_pending C i c = (x, c')" using assms(3) run by (simp add: flush_pending_def withS_def)
  ultimately show ?thesis using assms(7) unfolding drained_def by auto
qed

theorem flush_pending_drains_witness:
  "\<exists>c' ds ch'. flush_pending demo_crypto 0 (demo_client\<lparr>c_channels := demo_table\<lparr>slots := [Some (demo_channel\<lparr>pending_out := [[1, 2]]\<rparr>)]\<rparr>\<rparr>) = (Inr (), c') \<and>
     chan c' 0 = Some ch' \<and> [1, 2] = concat ds @ concat (pending_out ch') \<and>
     (pending_out ch' = [] \<or> hd (pending_out ch') = [] \<or> send_window ch' = 0 \<or> write_soft c' \<le> queued_write_bytes c')"
proof -
  let ?ch = "demo_channel\<lparr>pending_out := [[1, 2]]\<rparr>"
  let ?c = "demo_client\<lparr>c_channels := demo_table\<lparr>slots := [Some ?ch]\<rparr>\<rparr>"
  have "dk_ok demo_crypto (send_cipher ?c)" using demo_dk_ok by simp
  moreover have "write_soft ?c \<le> write_hard ?c" "\<not> kex_blocks_app ?c" by (simp_all add: demo_simps)
  moreover have "chan ?c 0 = Some ?ch" by (simp add: ct_look_def)
  moreover have "open_confirmed ?ch" "\<not> sent_eof ?ch" "remote_id ?ch = Some 7"
    "unat (max_remote_packet ?ch) + 64 \<le> MAX_PACKET"
    by (simp_all add: demo_channel_def channel_new_def MAX_PACKET_def)
  ultimately have "\<exists>c' ds ch'. flush_pending demo_crypto 0 ?c = (Inr (), c') \<and> chan c' 0 = Some ch' \<and>
    c' = (emitted demo_crypto 7 ds ?c)\<lparr>c_channels := c_channels c'\<rparr> \<and>
    concat (pending_out ?ch) = concat ds @ concat (pending_out ch') \<and>
    (\<forall>d \<in> set ds. length d \<le> unat (max_remote_packet ?ch)) \<and>
    unat (send_window ch') + length (concat ds) = unat (send_window ?ch) \<and>
    (pending_out ch' = [] \<or> hd (pending_out ch') = [] \<or> send_window ch' = 0 \<or> write_soft c' \<le> queued_write_bytes c')"
    by (rule flush_pending_drains)
  moreover have "concat (pending_out ?ch) = [1, 2]" by simp
  ultimately show ?thesis by metis
qed

end
