(* ===== verification/Conn_Agree.thy ===== *)
theory Conn_Agree
  imports Conn_Kex
begin

text \<open>
  The two ends of a key exchange agree: when each end has the other's identification and KEXINIT,
  the same negotiated ciphers, host key blob, session id and shared secret, \<open>finish_kex\<close> leaves them
  with the same exchange hash and session id, and each end's sending keys are the other's receiving
  keys. Negotiation over the lists the program itself sends always succeeds, on both ends alike.
\<close>

lemma make_keys_ok: "\<exists>k. make_keys C km h sid kl il kind = Inr k \<and> dk_kind k = kind"
  by (cases kind) (simp_all add: make_keys_def Let_def dk_from_material_def aes_new_def)

text \<open>The exchange hash and the session id \<open>finish_kex\<close> computes, and the state it leaves.\<close>

definition kex_hash :: "crypto \<Rightarrow> conn \<Rightarrow> kex_state \<Rightarrow> kexinit \<Rightarrow> rstr \<Rightarrow> bytes \<Rightarrow> bytes \<Rightarrow> bytes \<Rightarrow> bytes \<Rightarrow> bytes" where
  "kex_hash C c k th peer ks q_c q_s shared =
     (case c_role c of
        Server \<Rightarrow> compute_h C peer (ident_local c) (raw th) (raw (ours k)) ks q_c q_s (encode_mpint shared)
      | Client \<Rightarrow> compute_h C (ident_local c) peer (raw (ours k)) (raw th) ks q_c q_s (encode_mpint shared))"

lemma finish_kex_ok:
  assumes "c_kex c = Some k" and "theirs k = Some th" and "ident_peer c = Some peer" and "peer_ks c = Some ks"
    and "cipher_c2s k = Some c2s" and "cipher_s2c k = Some s2c"
    and "h = kex_hash C c k th peer ks q_c q_s shared"
    and "sid = (case session_id c of None \<Rightarrow> h | Some s \<Rightarrow> s)"
    and "make_keys C (encode_mpint shared) h sid 0x43 0x41 c2s = Inr kc"
    and "make_keys C (encode_mpint shared) h sid 0x44 0x42 s2c = Inr ks'"
  shows "finish_kex C q_c q_s shared c = (Inr (), c\<lparr>session_id := Some sid, last_h := Some h,
    c_pending_keys := Some (if c_role c = Server then \<lparr>pk_send = ks', pk_recv = kc\<rparr>
      else \<lparr>pk_send = kc, pk_recv = ks'\<rparr>)\<rparr>)"
proof (cases "c_role c")
  case Server
  with assms(7) have h: "compute_h C peer (ident_local c) (raw th) (raw (ours k)) ks q_c q_s (encode_mpint shared) = h"
    by (simp add: kex_hash_def)
  then have sid: "(case session_id c of None \<Rightarrow> compute_h C peer (ident_local c) (raw th) (raw (ours k)) ks q_c q_s (encode_mpint shared) | Some s \<Rightarrow> s) = sid"
    by (simp only: h assms(8))
  show ?thesis
    using Server assms(1-6,9,10)
    by (simp add: finish_kex_def withS_def ok_or_def bindE_tryR bindE_modify modify_def Let_def h
        sid)
next
  case Client
  with assms(7) have h: "compute_h C (ident_local c) peer (raw (ours k)) (raw th) ks q_c q_s (encode_mpint shared) = h"
    by (simp add: kex_hash_def)
  then have sid: "(case session_id c of None \<Rightarrow> compute_h C (ident_local c) peer (raw (ours k)) (raw th) ks q_c q_s (encode_mpint shared) | Some s \<Rightarrow> s) = sid"
    by (simp only: h assms(8))
  show ?thesis
    using Client assms(1-6,9,10)
    by (simp add: finish_kex_def withS_def ok_or_def bindE_tryR bindE_modify modify_def Let_def h
        sid)
qed

text \<open>
  \<open>paired s c\<close>: the server end \<open>s\<close> and the client end \<open>c\<close> have exchanged identifications and KEXINITs and
  negotiated the same ciphers. \<open>matched s c\<close>: they also have the same host key blob.
\<close>

definition paired :: "conn \<Rightarrow> conn \<Rightarrow> bool" where
  "paired s c \<longleftrightarrow> c_role s = Server \<and> c_role c = Client \<and>
     ident_peer s = Some (ident_local c) \<and> ident_peer c = Some (ident_local s) \<and> session_id s = session_id c \<and>
     (case (c_kex s, c_kex c) of
        (Some ks, Some kc) \<Rightarrow>
          map_option raw (theirs ks) = Some (raw (ours kc)) \<and> map_option raw (theirs kc) = Some (raw (ours ks)) \<and>
          cipher_c2s ks = cipher_c2s kc \<and> cipher_c2s ks \<noteq> None \<and>
          cipher_s2c ks = cipher_s2c kc \<and> cipher_s2c ks \<noteq> None
      | _ \<Rightarrow> False)"

definition matched :: "conn \<Rightarrow> conn \<Rightarrow> bool" where
  "matched s c \<longleftrightarrow> paired s c \<and> peer_ks s = peer_ks c \<and> peer_ks s \<noteq> None"

lemma finish_kex_agree:
  assumes "matched s c"
  shows "\<exists>s' c' ps pc. finish_kex C q_c q_s shared s = (Inr (), s') \<and>
    finish_kex C q_c q_s shared c = (Inr (), c') \<and>
    c_pending_keys s' = Some ps \<and> c_pending_keys c' = Some pc \<and>
    pk_send ps = pk_recv pc \<and> pk_recv ps = pk_send pc \<and>
    Some (dk_kind (pk_send pc)) = Option.bind (c_kex c) cipher_c2s \<and>
    Some (dk_kind (pk_send ps)) = Option.bind (c_kex s) cipher_s2c \<and>
    session_id s' = session_id c' \<and> session_id s' \<noteq> None \<and> last_h s' = last_h c'"
proof -
  from assms obtain ks kc where k: "c_kex s = Some ks" "c_kex c = Some kc"
    by (auto simp: matched_def paired_def split: option.splits)
  note m = assms [unfolded matched_def paired_def k prod.case option.case]
  have r: "c_role s = Server" "c_role c = Client" and id: "ident_peer s = Some (ident_local c)"
      "ident_peer c = Some (ident_local s)" and sid: "session_id s = session_id c" using m by simp_all
  obtain blob where pk1: "peer_ks s = Some blob" using m by blast
  then have pk: "peer_ks s = Some blob" "peer_ks c = Some blob" using m by simp_all
  obtain ts tc where th: "theirs ks = Some ts" "theirs kc = Some tc" and
    rw: "raw ts = raw (ours kc)" "raw tc = raw (ours ks)" using m by blast
  obtain a b where "cipher_c2s ks = Some a" "cipher_s2c ks = Some b" using m by blast
  then have ci: "cipher_c2s ks = Some a" "cipher_s2c ks = Some b" "cipher_c2s kc = Some a"
    "cipher_s2c kc = Some b" using m by simp_all
  define h where "h = kex_hash C s ks ts (ident_local c) blob q_c q_s shared"
  have h: "h = kex_hash C c kc tc (ident_local s) blob q_c q_s shared"
    by (simp add: h_def kex_hash_def r rw)
  define sd where "sd = (case session_id s of None \<Rightarrow> h | Some x \<Rightarrow> x)"
  have sd: "sd = (case session_id c of None \<Rightarrow> h | Some x \<Rightarrow> x)" by (simp add: sd_def sid)
  obtain k1 where k1: "make_keys C (encode_mpint shared) h sd 0x43 0x41 a = Inr k1" "dk_kind k1 = a"
    using make_keys_ok by blast
  obtain k2 where k2: "make_keys C (encode_mpint shared) h sd 0x44 0x42 b = Inr k2" "dk_kind k2 = b"
    using make_keys_ok by blast
  note S = finish_kex_ok [OF k(1) th(1) id(1) pk(1) ci(1,2) h_def sd_def k1(1) k2(1)]
  note D = finish_kex_ok [OF k(2) th(2) id(2) pk(2) ci(3,4) h sd k1(1) k2(1)]
  show ?thesis unfolding S D by (simp add: r k ci k1(2) k2(2))
qed

text \<open>Negotiation over what the program sends: either end's KEXINIT suits the other.\<close>

lemma negotiate_kex_own:
  assumes "enc_c2s th = SERVER_CIPHERS" and "enc_s2c th = SERVER_CIPHERS"
    and "host_key_algs th = SERVER_HOST_KEY" and "comp_c2s th = SERVER_COMP"
    and "kex_algs th = SERVER_KEX \<or> kex_algs th = CLIENT_KEX"
  shows "negotiate_kex th k = Inr (k\<lparr>cipher_c2s := Some ChaCha20Poly1305, cipher_s2c := Some ChaCha20Poly1305,
    theirs := Some th\<rparr>)"
proof -
  have c: "negotiate SERVER_CIPHERS SERVER_CIPHERS False = Some (ck_name ChaCha20Poly1305)"
    by (simp add: SERVER_CIPHERS_def)
  have n: "negotiate SERVER_HOST_KEY SERVER_HOST_KEY False = Some (lit ''ssh-ed25519'')"
    "negotiate SERVER_COMP SERVER_COMP False = Some (lit ''none'')"
    by (simp_all add: SERVER_HOST_KEY_def SERVER_COMP_def)
  have "negotiate KEX_ALGS (kex_algs th) True = Some (lit ''curve25519-sha256'')"
    using assms(5) by (auto simp: KEX_ALGS_def lit_simps)
  then show ?thesis
    using assms(1-4)
    by (simp add: negotiate_kex_def ok_or_def bindE_tryR c n ret_def del: ck_name.simps)
qed

section \<open>Example\<close>

definition demo_kex :: "kexinit \<Rightarrow> kexinit \<Rightarrow> kex_state" where
  "demo_kex mine other = \<lparr>ours = mine, theirs = Some other, kx_secret = None, local_pub = None,
     cipher_c2s = Some ChaCha20Poly1305, cipher_s2c = Some Aes256Gcm\<rparr>"

definition demo_ki :: "rstr list \<Rightarrow> kexinit" where
  "demo_ki kex = kexinit_build (replicate 16 0) kex SERVER_HOST_KEY SERVER_CIPHERS SERVER_MACS"

end
