(* ===== verification/Conn_Exchange.thy ===== *)
theory Conn_Exchange
  imports Conn_Agree Conn_Deliver
begin

text \<open>
  The key exchange as a whole: what the server makes of the client's \<open>KEX_ECDH_INIT\<close> and the client of
  the reply leaves both with matching keys, and \<open>NEWKEYS\<close> puts them into use.
\<close>

section \<open>The proposals\<close>

text \<open>The proposal a role sends, and that the parser of the other end takes it.\<close>

definition proposal :: "role \<Rightarrow> bytes \<Rightarrow> kexinit" where
  "proposal r ck = kexinit_build ck (case r of Server \<Rightarrow> SERVER_KEX | Client \<Rightarrow> CLIENT_KEX)
     SERVER_HOST_KEY SERVER_CIPHERS SERVER_MACS"

lemma proposal_parse: "length ck = 16 \<Longrightarrow> kexinit_parse (raw (proposal r ck)) = Inr (proposal r ck)"
  unfolding proposal_def by (rule kexinit_parse_build) (cases r; simp add: namelist_ok_def lit_simps)+

lemma proposal_negotiated:
  "negotiate_kex (proposal r ck) k = Inr (k\<lparr>cipher_c2s := Some ChaCha20Poly1305, cipher_s2c := Some ChaCha20Poly1305,
     theirs := Some (proposal r ck)\<rparr>)"
  by (rule negotiate_kex_own) (cases r; simp add: proposal_def kexinit_build_def Let_def SERVER_COMP_def)+

lemma proposal_strict: "list_has (kex_algs (proposal Client ck)) KEX_STRICT_C" "list_has (kex_algs (proposal Server ck)) KEX_STRICT_S"
  by (simp_all add: list_has_def proposal_def kexinit_build_def Let_def lit_simps)

lemma on_kexinit_proposal:
  assumes "c_kex c = Some k" and "length ck = 16" and "c_role c \<noteq> r" and "on_kexinit C (raw (proposal r ck)) c = (res, c')"
  shows "c_kex c' = Some (k\<lparr>cipher_c2s := Some ChaCha20Poly1305, cipher_s2c := Some ChaCha20Poly1305,
      theirs := Some (proposal r ck)\<rparr>) \<and> strict_kex c' \<and> env_of c' = env_of c \<and> session_id c' = session_id c \<and>
    (c_role c = Server \<longrightarrow> res = Inr ())"
proof -
  let ?k = "k\<lparr>cipher_c2s := Some ChaCha20Poly1305, cipher_s2c := Some ChaCha20Poly1305, theirs := Some (proposal r ck)\<rparr>"
  have strict: "list_has (kex_algs (proposal r ck)) (case c_role c of Server \<Rightarrow> KEX_STRICT_C | Client \<Rightarrow> KEX_STRICT_S)"
    using assms(3) proposal_strict by (cases r; cases "c_role c") auto
  define d where "d = c\<lparr>c_kex := Some ?k, strict_kex := True, peer_ext_info := list_has (kex_algs (proposal r ck))
    (case c_role c of Server \<Rightarrow> EXT_INFO_C | Client \<Rightarrow> EXT_INFO_S)\<rparr>"
  have skip: "bindE (withS (\<lambda>c. if c_kex c = None then start_kex C else ret ())) f c = f () c" for f
    using assms(1) by (simp add: bindE_def withS_def ret_def)
  have run: "(if c_role c = Client then send_ecdh_init C else ret ()) d = (res, c')"
  proof -
    let ?f = "\<lambda>c. let strict_name = (case c_role c of Server \<Rightarrow> KEX_STRICT_C | Client \<Rightarrow> KEX_STRICT_S);
           ext_name = (case c_role c of Server \<Rightarrow> EXT_INFO_C | Client \<Rightarrow> EXT_INFO_S);
           peer_strict = list_has (kex_algs (proposal r ck)) strict_name;
           peer_ext = list_has (kex_algs (proposal r ck)) ext_name
       in
         bindE (tryR (ok_or Panic (c_kex c))) (\<lambda>k.
         bindE (tryR (negotiate_kex (proposal r ck) k)) (\<lambda>k'.
         bindE (modify (\<lambda>c. c\<lparr>c_kex := Some k', strict_kex := (peer_strict \<or> strict_kex c),
                  peer_ext_info := peer_ext\<rparr>)) (\<lambda>_.
         if c_role c = Client then send_ecdh_init C else ret ())))"
    have "withS ?f c = (res, c')"
      using assms(4) unfolding on_kexinit_def proposal_parse [OF assms(2)] bindE_tryR skip .
    then show ?thesis
      using assms(1) strict
      by (simp add: withS_def proposal_negotiated bindE_tryR Let_def ok_or_def bindE_modify d_def split: role.splits)
  qed
  let ?m = "if c_role c = Client then send_ecdh_init C else ret ()"
  let ?keep = "\<lambda>c c'. kex_of c' = kex_of c \<and> auth_of c' = auth_of c \<and> c_closed c' = c_closed c"
  have k: "ensures ?keep ?m"
    unfolding send_ecdh_init_def by (intro kf.ens_if kf.ens_withS_all kf.ens_bindE kf.ens_tryR kf.ens_queue kf.ens_ret)
  have e: "ensures evolves ?m" by (intro ev.ens_if ev.ens_send_ecdh ev.ens_ret)
  have "kex_of c' = kex_of d" using ensures_sndD [OF k, of d] by (simp only: run snd_conv)
  moreover have "env_of c' = env_of d" using ensures_sndD [OF e, of d] by (simp only: run snd_conv evolves_def)
  ultimately show ?thesis using run by (auto simp: d_def ret_def env_of_def kex_of_def split: if_splits)
qed

text \<open>Claim C5. When each end receives the KEXINIT the program sends in the other role, the server
  accepts it, both negotiate the same ciphers, record the proposal of the other, and turn on
  strict key exchange.\<close>

theorem proposals_pair:
  assumes "c_role s = Server" and "c_role c = Client" and "ident_peer s = Some (ident_local c)"
    and "ident_peer c = Some (ident_local s)" and "session_id s = session_id c"
    and "c_kex s = Some ks" and "ours ks = proposal Server ck" and "length ck = 16"
    and "c_kex c = Some kc" and "ours kc = proposal Client ck'" and "length ck' = 16"
    and "on_kexinit C (raw (ours kc)) s = (rs, s')" and "on_kexinit C (raw (ours ks)) c = (rc, c')"
  shows "rs = Inr () \<and> paired s' c' \<and> strict_kex s' \<and> strict_kex c'"
proof -
  have "c_role s \<noteq> Client" "c_role c \<noteq> Server" using assms(1,2) by simp_all
  note S = on_kexinit_proposal [OF assms(6,11) this(1) assms(12) [unfolded assms(10)]]
  note D = on_kexinit_proposal [OF assms(9,8) \<open>c_role c \<noteq> Server\<close> assms(13) [unfolded assms(7)]]
  show ?thesis using S D assms(1-5,7,10) by (simp add: paired_def env_of_def)
qed

section \<open>The Diffie-Hellman messages\<close>

definition ecdh_init_msg :: "bytes \<Rightarrow> bytes" where
  "ecdh_init_msg q_c = put_bytes [SSH_MSG_KEX_ECDH_INIT] q_c"

definition ecdh_reply_msg :: "bytes \<Rightarrow> bytes \<Rightarrow> bytes \<Rightarrow> bytes" where
  "ecdh_reply_msg ks q_s sig = put_bytes (put_bytes (put_bytes [SSH_MSG_KEX_ECDH_REPLY] ks) q_s) sig"

lemma bytes_reads: "length v < 2 ^ 32 \<Longrightarrow> cursor p (put_bytes [] v @ r) \<Longrightarrow> \<exists>q. p_bytes p = (Inr v, q) \<and> cursor q r"
  using wbytes.get_put [of v r] by (simp add: yields_def)

lemma tag_reads: "\<exists>q. p_u8 (parser_new (t # r)) = (Inr t, q) \<and> cursor q r"
  using wu8.get_put [of t r] cursor_new [of "t # r"] by (simp add: yields_def put_u8_def)

text \<open>The server, on a well-formed message of the client.\<close>

lemma ecdh_init_run:
  assumes "c_role s = Server" and "c_server s = Some cfg" and "Option.bind (c_kex s) theirs \<noteq> None"
    and "length q_c = 32" and "b = map (os_rng C) [c_rng s..<c_rng s + 32]"
    and "q_s = arr 32 (x25519_public C b)" and "shared = arr 32 (x25519_shared C b q_c)" and "\<not> is_zero shared"
    and "ks = hk_public_blob C (sc_host_key cfg)"
    and "finish_kex C q_c q_s shared (s\<lparr>c_rng := c_rng s + 32, peer_ks := Some ks\<rparr>) = (Inr (), s1)"
    and "last_h s1 = Some h"
  shows "on_ecdh_init C (ecdh_init_msg q_c) s =
    bindE (queue_msg C (ecdh_reply_msg ks q_s (hk_sign C (sc_host_key cfg) h)) True) (\<lambda>_. send_newkeys C) s1"
proof -
  have m: "ecdh_init_msg q_c = SSH_MSG_KEX_ECDH_INIT # (put_bytes [] q_c @ [])"
    unfolding ecdh_init_msg_def using wbytes.put_Cons [of SSH_MSG_KEX_ECDH_INIT "[]" q_c] by simp
  obtain p1 where 1: "p_u8 (parser_new (ecdh_init_msg q_c)) = (Inr SSH_MSG_KEX_ECDH_INIT, p1)"
    "cursor p1 (put_bytes [] q_c @ [])" using tag_reads [of SSH_MSG_KEX_ECDH_INIT "put_bytes [] q_c @ []"] m by auto
  obtain p2 where 2: "p_bytes p1 = (Inr q_c, p2)" using bytes_reads [OF _ 1(2)] assms(4) by auto
  have fin: "bindE (finish_kex C q_c q_s shared) f (s\<lparr>c_rng := c_rng s + 32, peer_ks := Some ks\<rparr>) = f () s1" for f
    using assms(10) by (simp add: bindE_def)
  obtain th where "Option.bind (c_kex s) theirs = Some th" using assms(3) by blast
  then show ?thesis
    using assms(1,2,4,8,11)
    by (simp add: on_ecdh_init_def withS_def useE_def 1 2 bindE_def [of "rng_fill _ _"] rng_fill_def Let_def
        ok_or_def bindE_tryR bindE_modify fin flip: assms(5-7,9) ecdh_reply_msg_def)
qed

text \<open>The client, on the reply.\<close>

lemma ecdh_reply_run:
  assumes "c_role c = Client" and "c_kex c = Some kc" and "local_pub kc = Some q_c" and "kx_secret kc = Some a"
    and "length ks < 2 ^ 32" and "length q_s = 32" and "length sig < 2 ^ 32"
    and "shared = arr 32 (x25519_shared C a q_s)" and "\<not> is_zero shared"
    and "finish_kex C q_c q_s shared (c\<lparr>c_kex := Some (kc\<lparr>kx_secret := None\<rparr>), peer_ks := Some ks\<rparr>) = (Inr (), c1)"
  shows "on_ecdh_reply C (ecdh_reply_msg ks q_s sig) c = send_newkeys C c1"
proof -
  have m: "ecdh_reply_msg ks q_s sig =
      SSH_MSG_KEX_ECDH_REPLY # (put_bytes [] ks @ put_bytes [] q_s @ put_bytes [] sig @ [])"
    unfolding ecdh_reply_msg_def
    using wbytes.put_append [of "put_bytes (put_bytes [SSH_MSG_KEX_ECDH_REPLY] ks) q_s" sig]
      wbytes.put_append [of "put_bytes [SSH_MSG_KEX_ECDH_REPLY] ks" q_s] wbytes.put_append [of "[SSH_MSG_KEX_ECDH_REPLY]" ks]
    by simp
  obtain p1 where 1: "p_u8 (parser_new (ecdh_reply_msg ks q_s sig)) = (Inr SSH_MSG_KEX_ECDH_REPLY, p1)"
    "cursor p1 (put_bytes [] ks @ put_bytes [] q_s @ put_bytes [] sig @ [])"
    using tag_reads [of SSH_MSG_KEX_ECDH_REPLY "put_bytes [] ks @ put_bytes [] q_s @ put_bytes [] sig @ []"] m by auto
  obtain p2 where 2: "p_bytes p1 = (Inr ks, p2)" "cursor p2 (put_bytes [] q_s @ put_bytes [] sig @ [])"
    using bytes_reads [OF assms(5) 1(2)] by blast
  obtain p3 where 3: "p_bytes p2 = (Inr q_s, p3)" "cursor p3 (put_bytes [] sig @ [])"
    using bytes_reads [OF _ 2(2)] assms(6) by auto
  obtain p4 where 4: "p_bytes p3 = (Inr sig, p4)" using bytes_reads [OF assms(7) 3(2)] by blast
  have fin: "bindE (finish_kex C q_c q_s shared) f (c\<lparr>c_kex := Some (kc\<lparr>kx_secret := None\<rparr>), peer_ks := Some ks\<rparr>) = f () c1"
    for f using assms(10) by (simp add: bindE_def)
  show ?thesis
    using assms(1-4,6,9)
    by (simp add: on_ecdh_reply_def withS_def useE_def 1 2 3 4 Let_def ok_or_def bindE_tryR bindE_modify fin
        flip: assms(8))
qed

lemma blob_lengths: "length (hk_public_blob C k) < 2 ^ 32" "length (hk_sign C k d) < 2 ^ 32"
  by (simp_all add: hk_public_blob_def hk_sign_def hk_public_bytes_def put_bytes_def put_str_def put_u32_def)

lemma reply_length: "length q_s = 32 \<Longrightarrow> length (ecdh_reply_msg (hk_public_blob C k) q_s (hk_sign C k d)) + 32 \<le> MAX_PACKET"
  by (simp add: ecdh_reply_msg_def hk_public_blob_def hk_sign_def hk_public_bytes_def put_bytes_def put_str_def
      put_u32_def MAX_PACKET_def)

text \<open>
  The exchange: the reply of the server, on which any client end paired with it and holding the secret
  \<open>a\<close> derives the mirrored keys.
\<close>

lemma exchange:
  assumes dh: "dh_law C" and pair: "paired s c" and srv: "c_server s = Some cfg" and a: "length a = 32"
    and q_c: "q_c = arr 32 (x25519_public C a)"
    and strong: "\<not> is_zero (arr 32 (x25519_shared C (map (os_rng C) [c_rng s..<c_rng s + 32]) q_c))"
  shows "\<exists>reply s1 ps.
    on_ecdh_init C (ecdh_init_msg q_c) s = bindE (queue_msg C reply True) (\<lambda>_. send_newkeys C) s1 \<and>
    reply \<noteq> [] \<and> reply ! 0 = SSH_MSG_KEX_ECDH_REPLY \<and> length reply + 32 \<le> MAX_PACKET \<and>
    link_of s1 = link_of s \<and> c_pending_keys s1 = Some ps \<and> session_id s1 \<noteq> None \<and>
    Some (dk_kind (pk_send ps)) = Option.bind (c_kex s) cipher_s2c \<and>
    (\<forall>c kc. paired s c \<longrightarrow> c_kex c = Some kc \<longrightarrow> kx_secret kc = Some a \<longrightarrow> local_pub kc = Some q_c \<longrightarrow>
       (\<exists>c1 pc. on_ecdh_reply C reply c = send_newkeys C c1 \<and>
          link_of c1 = link_of (c\<lparr>c_kex := Some (kc\<lparr>kx_secret := None\<rparr>)\<rparr>) \<and>
          c_pending_keys c1 = Some pc \<and> pk_send ps = pk_recv pc \<and> pk_recv ps = pk_send pc \<and>
          Some (dk_kind (pk_send pc)) = cipher_c2s kc \<and> session_id c1 = session_id s1 \<and> last_h c1 = last_h s1))"
proof -
  define b where "b = map (os_rng C) [c_rng s..<c_rng s + 32]"
  define q_s where "q_s = arr 32 (x25519_public C b)"
  define shared where "shared = arr 32 (x25519_shared C b q_c)"
  define ks where "ks = hk_public_blob C (sc_host_key cfg)"
  have sh: "shared = arr 32 (x25519_shared C a q_s)"
    using dh a by (simp add: dh_law_def shared_def q_c q_s_def b_def)
  have nz: "\<not> is_zero shared" using strong by (simp add: shared_def b_def)
  let ?s = "s\<lparr>c_rng := c_rng s + 32, peer_ks := Some ks\<rparr>"
  let ?c = "\<lambda>c kc. c\<lparr>c_kex := Some (kc\<lparr>kx_secret := None\<rparr>), peer_ks := Some ks\<rparr>"
  have m: "matched ?s (?c c kc)" if "paired s c" "c_kex c = Some kc" for c kc
    using that by (auto simp: matched_def paired_def split: option.splits) metis+
  obtain kc where kc: "c_kex c = Some kc" using pair by (auto simp: paired_def split: option.splits)
  from finish_kex_agree [OF m [OF pair kc], of C q_c q_s shared] obtain s1 ps where
    fin: "finish_kex C q_c q_s shared ?s = (Inr (), s1)" and ps: "c_pending_keys s1 = Some ps" "session_id s1 \<noteq> None"
      "Some (dk_kind (pk_send ps)) = Option.bind (c_kex ?s) cipher_s2c" by blast
  obtain h where h: "last_h s1 = Some h" using finish_kex_last_h [OF fin] by blast
  have roles: "c_role s = Server" "c_role c' = Client" if "paired s c'" for c' using that by (simp_all add: paired_def)
  have th: "Option.bind (c_kex s) theirs \<noteq> None" using pair by (auto simp: paired_def split: option.splits)
  have len: "length q_c = 32" "length q_s = 32" by (simp_all add: q_c q_s_def)
  let ?reply = "ecdh_reply_msg ks q_s (hk_sign C (sc_host_key cfg) h)"
  note S = ecdh_init_run [OF roles(1) [OF pair] srv th len(1) b_def q_s_def shared_def nz ks_def fin h]
  have "?reply \<noteq> [] \<and> ?reply ! 0 = SSH_MSG_KEX_ECDH_REPLY"
    by (simp add: ecdh_reply_msg_def put_bytes_def put_u32_def)
  moreover have "length ?reply + 32 \<le> MAX_PACKET" unfolding ks_def by (rule reply_length [OF len(2)])
  moreover have "\<exists>c1 pc. on_ecdh_reply C ?reply c = send_newkeys C c1 \<and>
      link_of c1 = link_of (c\<lparr>c_kex := Some (kc\<lparr>kx_secret := None\<rparr>)\<rparr>) \<and>
      c_pending_keys c1 = Some pc \<and> pk_send ps = pk_recv pc \<and> pk_recv ps = pk_send pc \<and>
      Some (dk_kind (pk_send pc)) = cipher_c2s kc \<and> session_id c1 = session_id s1 \<and> last_h c1 = last_h s1"
    if c: "paired s c" "c_kex c = Some kc" "kx_secret kc = Some a" "local_pub kc = Some q_c" for c kc
  proof -
    obtain c1 pc where c1: "finish_kex C q_c q_s shared (?c c kc) = (Inr (), c1)" "c_pending_keys c1 = Some pc"
      "pk_send ps = pk_recv pc" "pk_recv ps = pk_send pc" "Some (dk_kind (pk_send pc)) = cipher_c2s kc"
      "session_id c1 = session_id s1" "last_h c1 = last_h s1"
      using finish_kex_agree [OF m [OF c(1,2)], of C q_c q_s shared] fin ps(1) by auto
    have "on_ecdh_reply C ?reply c = send_newkeys C c1"
      using ecdh_reply_run [OF roles(2) [OF c(1)] c(2,4,3) blob_lengths(1) [of C "sc_host_key cfg", folded ks_def]
          len(2) blob_lengths(2) sh nz c1(1)] .
    moreover have "link_of c1 = link_of (c\<lparr>c_kex := Some (kc\<lparr>kx_secret := None\<rparr>)\<rparr>)"
      using finish_kex_link [OF c1(1)] by (simp add: link_of_def out_of_def)
    ultimately show ?thesis using c1(2-7) by blast
  qed
  moreover have "link_of s1 = link_of s" using finish_kex_link [OF fin] by (simp add: link_of_def out_of_def)
  moreover have "Option.bind (c_kex ?s) cipher_s2c = Option.bind (c_kex s) cipher_s2c" by simp
  ultimately show ?thesis using S ps by (intro exI [of _ ?reply] exI [of _ s1] exI [of _ ps]) simp
qed

section \<open>Putting the keys into use\<close>

text \<open>
  \<open>NEWKEYS\<close> goes out under the old key and what follows it under the new one; an end in step opens it.
\<close>

definition switched :: "crypto \<Rightarrow> conn \<Rightarrow> pending_keys \<Rightarrow> bytes \<Rightarrow> conn \<Rightarrow> bool" where
  "switched C c pk pkt c' \<longleftrightarrow> out_stream c' = out_stream c @ pkt \<and>
    send_cipher c' = pk_send pk \<and> c_pending_keys c' = Some (pk\<lparr>pk_send := DClear\<rparr>) \<and> sent_newkeys c' \<and>
    send_seq c' = (if strict_kex c then 0 else send_seq c + 1) \<and> strict_kex c' = strict_kex c \<and>
    session_id c' = session_id c \<and> last_h c' = last_h c \<and> recv_cipher c' = recv_cipher c \<and>
    recv_seq c' = recv_seq c \<and> read_buf c' = read_buf c \<and>
    (\<forall>b r. in_step c b \<longrightarrow> read_buf b = pkt @ r \<longrightarrow> (\<exists>n keys. try_one_packet C b =
       bindE (accept_payload C n [SSH_MSG_NEWKEYS]) (\<lambda>_. ret True) (b\<lparr>read_buf := r, recv_cipher := keys\<rparr>)))"

lemma send_newkeys_run:
  assumes ok: "dk_ok C (send_cipher c)" and pk: "c_pending_keys c = Some pk" and nk: "\<not> recv_newkeys c"
  shows "\<exists>pkt c'. send_newkeys C c = (Inr (), c') \<and> switched C c pk pkt c'"
proof -
  have "length [SSH_MSG_NEWKEYS] + 32 \<le> MAX_PACKET" by (simp add: MAX_PACKET_def)
  from deliver_sealed [OF ok _ this, of True] obtain pkt keys n where
    q: "queue_msg C [SSH_MSG_NEWKEYS] True c = (Inr (), sealed pkt keys n c)" and
    d: "\<forall>b r. in_step c b \<longrightarrow> read_buf b = pkt @ r \<longrightarrow> try_one_packet C b =
       bindE (accept_payload C (length pkt) [SSH_MSG_NEWKEYS]) (\<lambda>_. ret True) (b\<lparr>read_buf := r, recv_cipher := keys\<rparr>)"
    by auto
  let ?c = "(sealed pkt keys n c)\<lparr>send_cipher := pk_send pk, c_pending_keys := Some (pk\<lparr>pk_send := DClear\<rparr>),
    sent_newkeys := True, send_seq := if strict_kex c then 0 else send_seq c + 1\<rparr>"
  have "send_newkeys C c = (Inr (), ?c)"
    using pk nk
    by (auto simp: send_newkeys_def bindE_ok [where m = "queue_msg C [SSH_MSG_NEWKEYS] True", OF q] bindE_modify
        try_complete_kex_def withS_def ret_def sealed_def)
  moreover have "switched C c pk pkt ?c"
    unfolding switched_def using d by (auto simp: sealed_def out_stream_def)
  ultimately show ?thesis by blast
qed

text \<open>Once both \<open>NEWKEYS\<close> have passed, the exchange is over.\<close>

lemma complete_kex:
  assumes "sent_newkeys c" and "recv_newkeys c" and "try_complete_kex C c = (r, c')"
  shows "c_kex c' = None \<and> \<not> sent_kexinit c' \<and> c_pending_keys c' = None \<and> first_kex_done c' \<and>
    recv_cipher c' = recv_cipher c \<and> recv_seq c' = recv_seq c \<and> (first_kex_done c \<longrightarrow> \<not> kex_blocks_app c')"
proof -
  let ?d = "c\<lparr>c_kex := None, sent_kexinit := False, c_pending_keys := None, bytes_io := 0, packets_io := 0\<rparr>"
  let ?keep = "\<lambda>c c'. kex_of c' = kex_of c \<and> auth_of c' = auth_of c \<and> c_closed c' = c_closed c"
  show ?thesis
  proof (cases "first_kex_done c")
    case True
    let ?e = "?d\<lparr>kex_blocks_app := False\<rparr>"
    have ens: "ensures ?keep (bindE (flush_post_rekey C) (\<lambda>_. modify (\<lambda>c. c\<lparr>bytes_io := 0, packets_io := 0\<rparr>)))"
      by (intro kf.ens_bindE kf.ens_flush_post kf.ens_modify) (simp add: kex_of_def auth_of_def)
    have run: "bindE (flush_post_rekey C) (\<lambda>_. modify (\<lambda>c. c\<lparr>bytes_io := 0, packets_io := 0\<rparr>)) ?e = (r, c')"
      using assms True by (simp add: try_complete_kex_def withS_def bindE_modify)
    have "kex_of c' = kex_of ?e" using ensures_sndD [OF ens, of ?e] by (simp only: run snd_conv)
    with True show ?thesis by (simp add: kex_of_def)
  next
    case False
    let ?e = "?d\<lparr>first_kex_done := True\<rparr>"
    let ?m = "bindE (if c_role c = Server \<and> peer_ext_info c then send_ext_info C else ret ()) (\<lambda>_.
         if c_role c = Client then send_service_request C else ret ())"
    have ens: "ensures ?keep ?m"
      unfolding send_ext_info_def send_service_request_def
      by (intro kf.ens_bindE kf.ens_if kf.ens_queue kf.ens_ret)
    have run: "?m ?e = (r, c')"
      using assms False by (simp add: try_complete_kex_def withS_def bindE_modify)
    have "kex_of c' = kex_of ?e" using ensures_sndD [OF ens, of ?e] by (simp only: run snd_conv)
    with False show ?thesis by (simp add: kex_of_def)
  qed
qed

lemma on_newkeys_completes:
  assumes "c_pending_keys c = Some pk" and "sent_newkeys c" and "on_newkeys C c = (r, c')"
  shows "c_kex c' = None \<and> \<not> sent_kexinit c' \<and> c_pending_keys c' = None \<and> first_kex_done c' \<and>
    recv_cipher c' = pk_recv pk \<and> recv_seq c' = recv_seq c \<and> (first_kex_done c \<longrightarrow> \<not> kex_blocks_app c')"
proof -
  let ?d = "c\<lparr>c_pending_keys := None, recv_cipher := pk_recv pk, recv_newkeys := True\<rparr>"
  have "try_complete_kex C ?d = (r, c')"
    using assms by (simp add: on_newkeys_def withS_def bindE_modify)
  from complete_kex [OF _ _ this] assms(2) show ?thesis by simp
qed

text \<open>The packets of the exchange as the receiving end dispatches them.\<close>

lemma accept_newkeys:
  assumes "c_pending_keys b = Some pk" and "sent_newkeys b"
    and b': "b' = snd (bindE (accept_payload C n [SSH_MSG_NEWKEYS]) (\<lambda>_. ret True) b)"
  shows "c_kex b' = None \<and> first_kex_done b' \<and> recv_cipher b' = pk_recv pk \<and>
    recv_seq b' = (if strict_kex b then 0 else recv_seq b + 1)"
proof -
  let ?b = "b\<lparr>recv_seq := if strict_kex b then 0 else recv_seq b + 1, bytes_io := bytes_io b + of_nat n,
    packets_io := packets_io b + 1\<rparr>"
  have "accept_payload C n [SSH_MSG_NEWKEYS] b = on_newkeys C ?b"
    by (cases b) (simp add: accept_payload_def handle_payload_def bindE_modify withS_def is_transport_ignore_def is_kex_msg_def)
  then have "b' = snd (on_newkeys C ?b)"
    using b' by (auto simp: bindE_def ret_def split: prod.splits sum.splits)
  moreover have "c_pending_keys ?b = Some pk" "sent_newkeys ?b" using assms by simp_all
  ultimately show ?thesis using on_newkeys_completes [OF _ _ prod.collapse [symmetric], of ?b pk C] by simp
qed

lemma newkeys_in_step:
  assumes "switched C a pa pkt a'" and "in_step a b" and "read_buf b = pkt"
    and "c_pending_keys b = Some pb" and "sent_newkeys b" and "pk_recv pb = pk_send pa" and "strict_kex b = strict_kex a"
    and b': "b' = snd (try_one_packet C b)"
  shows "in_step a' b' \<and> c_kex b' = None \<and> first_kex_done b'"
proof -
  from assms(1-3) obtain n keys where "try_one_packet C b =
      bindE (accept_payload C n [SSH_MSG_NEWKEYS]) (\<lambda>_. ret True) (b\<lparr>read_buf := [], recv_cipher := keys\<rparr>)"
    unfolding switched_def by (metis append_Nil2)
  with b' have "b' = snd (bindE (accept_payload C n [SSH_MSG_NEWKEYS]) (\<lambda>_. ret True)
      (b\<lparr>read_buf := [], recv_cipher := keys\<rparr>))" by simp
  from accept_newkeys [OF _ _ this, of pb] assms show ?thesis by (simp add: in_step_def switched_def)
qed

lemma accept_reply:
  assumes "reply \<noteq> []" and "reply ! 0 = SSH_MSG_KEX_ECDH_REPLY"
  shows "accept_payload C n reply b = on_ecdh_reply C reply (b\<lparr>recv_seq := recv_seq b + 1,
    bytes_io := bytes_io b + of_nat n, packets_io := packets_io b + 1\<rparr>)"
  using assms
  by (simp add: accept_payload_def handle_payload_def bindE_modify withS_def is_transport_ignore_def is_kex_msg_def)

section \<open>Properties\<close>

text \<open>Claim C4. From ends that have exchanged proposals and are in step, the server answers
  KEX_ECDH_INIT with two packets; the client opens the first, the reply, and answers with one
  packet; when each end then opens the NEWKEYS packet of the other, the exchange is over on
  both, the receiving keys and packet number of each end are the sending ones of the other, the
  new sending keys are of the negotiated ciphers, and both have the same exchange hash and
  session id. Hypotheses on the primitives: Curve25519 agreement, a shared secret that is not
  zero, and that the ciphers in use before the exchange open what they seal.\<close>

theorem key_exchange_matches:
  assumes dh: "dh_law C" and pair: "paired s c" and srv: "c_server s = Some cfg"
    and cl: "c_kex c = Some kc" "kx_secret kc = Some a" "length a = 32" "local_pub kc = Some q_c"
    and q_c: "q_c = arr 32 (x25519_public C a)"
    and strong: "\<not> is_zero (arr 32 (x25519_shared C (map (os_rng C) [c_rng s..<c_rng s + 32]) q_c))"
    and nk: "\<not> recv_newkeys s" "\<not> recv_newkeys c" and strict: "strict_kex s = strict_kex c"
    and ok: "dk_ok C (send_cipher s)" "dk_ok C (send_cipher c)" and step: "in_step s c" "in_step c s"
  shows "\<exists>s' pkts c' pkt. on_ecdh_init C (ecdh_init_msg q_c) s = (Inr (), s') \<and>
    out_stream s' = out_stream s @ pkts \<and>
    try_one_packet C (c\<lparr>read_buf := pkts\<rparr>) = (Inr True, c') \<and> out_stream c' = out_stream c @ pkt \<and>
    Some (dk_kind (send_cipher s')) = Option.bind (c_kex s) cipher_s2c \<and>
    Some (dk_kind (send_cipher c')) = cipher_c2s kc \<and>
    session_id s' = session_id c' \<and> session_id s' \<noteq> None \<and> last_h s' = last_h c' \<and>
    (let c'' = snd (try_one_packet C c'); s'' = snd (try_one_packet C (s'\<lparr>read_buf := pkt\<rparr>))
     in in_step s' c'' \<and> in_step c' s'' \<and> c_kex c'' = None \<and> c_kex s'' = None \<and>
       first_kex_done c'' \<and> first_kex_done s'')"
proof -
  from exchange [OF dh pair srv cl(3) q_c strong] obtain reply s1 ps where
    init: "on_ecdh_init C (ecdh_init_msg q_c) s = bindE (queue_msg C reply True) (\<lambda>_. send_newkeys C) s1"
    and reply: "reply \<noteq> []" "reply ! 0 = SSH_MSG_KEX_ECDH_REPLY" "length reply + 32 \<le> MAX_PACKET"
    and s1: "link_of s1 = link_of s" "c_pending_keys s1 = Some ps" "session_id s1 \<noteq> None"
      "Some (dk_kind (pk_send ps)) = Option.bind (c_kex s) cipher_s2c"
    and client: "\<forall>c kc. paired s c \<longrightarrow> c_kex c = Some kc \<longrightarrow> kx_secret kc = Some a \<longrightarrow> local_pub kc = Some q_c \<longrightarrow>
       (\<exists>c1 pc. on_ecdh_reply C reply c = send_newkeys C c1 \<and>
          link_of c1 = link_of (c\<lparr>c_kex := Some (kc\<lparr>kx_secret := None\<rparr>)\<rparr>) \<and>
          c_pending_keys c1 = Some pc \<and> pk_send ps = pk_recv pc \<and> pk_recv ps = pk_send pc \<and>
          Some (dk_kind (pk_send pc)) = cipher_c2s kc \<and> session_id c1 = session_id s1 \<and> last_h c1 = last_h s1)"
    by blast
  note l = s1(1) [unfolded link_of_def out_of_def, simplified]
  have "dk_ok C (send_cipher s1)" using ok(1) l by simp
  from deliver_sealed [OF this reply(1,3), of True] obtain p1 k1 n1 where
    q1: "queue_msg C reply True s1 = (Inr (), sealed p1 k1 n1 s1)" "dk_ok C k1"
    and d1: "\<forall>b r. in_step s1 b \<longrightarrow> read_buf b = p1 @ r \<longrightarrow> try_one_packet C b =
       bindE (accept_payload C (length p1) reply) (\<lambda>_. ret True) (b\<lparr>read_buf := r, recv_cipher := k1\<rparr>)" by auto
  let ?s1 = "sealed p1 k1 n1 s1"
  have "dk_ok C (send_cipher ?s1)" "c_pending_keys ?s1 = Some ps" "\<not> recv_newkeys ?s1"
    using q1(2) s1(2) nk(1) l by (simp_all add: sealed_def)
  from send_newkeys_run [OF this] obtain p2 s' where
    s': "send_newkeys C ?s1 = (Inr (), s')" and sw: "switched C ?s1 ps p2 s'" by blast
  let ?c = "c\<lparr>read_buf := p2, recv_cipher := k1, recv_seq := recv_seq c + 1,
    bytes_io := bytes_io c + of_nat (length p1), packets_io := packets_io c + 1\<rparr>"
  have "paired s ?c" using pair by (simp add: paired_def)
  with client [rule_format, of ?c kc] cl obtain c1 pc where
    c1: "on_ecdh_reply C reply ?c = send_newkeys C c1" "link_of c1 = link_of (?c\<lparr>c_kex := Some (kc\<lparr>kx_secret := None\<rparr>)\<rparr>)"
      "c_pending_keys c1 = Some pc" "pk_send ps = pk_recv pc" "pk_recv ps = pk_send pc"
      "Some (dk_kind (pk_send pc)) = cipher_c2s kc" "session_id c1 = session_id s1" "last_h c1 = last_h s1" by auto
  note lc = c1(2) [unfolded link_of_def out_of_def, simplified]
  have "dk_ok C (send_cipher c1)" "\<not> recv_newkeys c1" using ok(2) nk(2) lc by simp_all
  from send_newkeys_run [OF this(1) c1(3) this(2)] obtain p3 c' where
    c': "send_newkeys C c1 = (Inr (), c')" and cw: "switched C c1 pc p3 c'" by blast
  let ?s' = "s'\<lparr>read_buf := p3\<rparr>"
  note w = sw [unfolded switched_def] cw [unfolded switched_def]
  have init': "on_ecdh_init C (ecdh_init_msg q_c) s = (Inr (), s')"
    unfolding init by (simp add: bindE_ok [where m = "queue_msg C reply True", OF q1(1)] s')
  have out: "out_stream s' = out_stream s @ (p1 @ p2)" "out_stream c' = out_stream c @ p3"
    using w l lc by (simp_all add: out_stream_def sealed_def)
  have "in_step s1 (c\<lparr>read_buf := p1 @ p2\<rparr>)" using step(1) l by (simp add: in_step_def)
  with d1 have rd: "try_one_packet C (c\<lparr>read_buf := p1 @ p2\<rparr>) = (Inr True, c')"
    by (simp add: bindE_def accept_reply [OF reply(1,2)] c1(1) c' ret_def)
  have "in_step ?s1 c'" "in_step c1 ?s'"
    using w l lc step by (simp_all add: in_step_def sealed_def)
  then have "in_step s' (snd (try_one_packet C c')) \<and> c_kex (snd (try_one_packet C c')) = None \<and>
      first_kex_done (snd (try_one_packet C c'))"
    "in_step c' (snd (try_one_packet C ?s')) \<and> c_kex (snd (try_one_packet C ?s')) = None \<and>
      first_kex_done (snd (try_one_packet C ?s'))"
    using newkeys_in_step [OF sw _ _ _ _ _ _ refl, of c' "pc\<lparr>pk_send := DClear\<rparr>"]
      newkeys_in_step [OF cw _ _ _ _ _ _ refl, of ?s' "ps\<lparr>pk_send := DClear\<rparr>"] w l lc c1(4,5) strict
    by (simp_all add: sealed_def)
  moreover have "session_id s' = session_id c'" "session_id s' \<noteq> None" "last_h s' = last_h c'"
    "Some (dk_kind (send_cipher s')) = Option.bind (c_kex s) cipher_s2c"
    "Some (dk_kind (send_cipher c')) = cipher_c2s kc"
    using w s1(3,4) c1(6-8) by (simp_all add: sealed_def)
  ultimately show ?thesis
    using init' out rd unfolding Let_def
    by (intro exI [of _ s'] exI [of _ "p1 @ p2"] exI [of _ c'] exI [of _ p3] conjI) (elim conjE, assumption)+
qed

text \<open>Claim C21. NEWKEYS received after the own NEWKEYS was sent ends the exchange: the pending
  receiving keys are in use, nothing of the exchange is left, the first exchange is done, and
  after a rekey the application is no longer held back.\<close>

theorem newkeys_completes:
  assumes "c_pending_keys c = Some pk" and "sent_newkeys c" and "on_newkeys C c = (r, c')"
  shows "recv_cipher c' = pk_recv pk \<and> c_kex c' = None \<and> c_pending_keys c' = None \<and> \<not> sent_kexinit c' \<and>
    first_kex_done c' \<and> (first_kex_done c \<longrightarrow> \<not> kex_blocks_app c')"
  using on_newkeys_completes [OF assms] by blast

theorem newkeys_completes_witness:
  "\<not> kex_blocks_app (snd (on_newkeys demo_crypto (demo_server\<lparr>first_kex_done := True, kex_blocks_app := True,
     sent_newkeys := True, c_pending_keys := Some \<lparr>pk_send = DClear, pk_recv = DClear\<rparr>\<rparr>)))"
  using newkeys_completes [OF _ _ prod.collapse [symmetric], of "demo_server\<lparr>first_kex_done := True, kex_blocks_app := True,
     sent_newkeys := True, c_pending_keys := Some \<lparr>pk_send = DClear, pk_recv = DClear\<rparr>\<rparr>" _ demo_crypto]
  by simp

definition demo_pair :: "kexinit \<Rightarrow> kexinit \<Rightarrow> kex_state" where
  "demo_pair mine other = (demo_kex mine other)\<lparr>kx_secret := Some (replicate 32 5),
     local_pub := Some (arr 32 (x25519_public demo_crypto (replicate 32 5)))\<rparr>"

definition kex_server :: conn where
  "kex_server = demo_server\<lparr>ident_peer := Some (lit ''SSH-2.0-b''),
     c_kex := Some (demo_kex (demo_ki SERVER_KEX) (demo_ki CLIENT_KEX))\<rparr>"

definition kex_client :: conn where
  "kex_client = demo_client\<lparr>ident_peer := Some (lit ''SSH-2.0-a''),
     c_kex := Some (demo_pair (demo_ki CLIENT_KEX) (demo_ki SERVER_KEX))\<rparr>"

theorem key_exchange_matches_witness:
  "\<exists>s' pkts c'. on_ecdh_init demo_crypto (ecdh_init_msg (arr 32 (x25519_public demo_crypto (replicate 32 5)))) kex_server
      = (Inr (), s') \<and> out_stream s' = out_stream kex_server @ pkts \<and>
    try_one_packet demo_crypto (kex_client\<lparr>read_buf := pkts\<rparr>) = (Inr True, c') \<and>
    in_step s' (snd (try_one_packet demo_crypto c'))"
proof -
  let ?q = "arr 32 (x25519_public demo_crypto (replicate 32 5))"
  let ?kc = "demo_pair (demo_ki CLIENT_KEX) (demo_ki SERVER_KEX)"
  have pair: "paired kex_server kex_client"
    by (simp add: paired_def kex_server_def kex_client_def demo_pair_def demo_kex_def demo_simps)
  have srv: "c_server kex_server = Some demo_server_cfg" by (simp add: kex_server_def demo_simps)
  have cl: "c_kex kex_client = Some ?kc" "kx_secret ?kc = Some (replicate 32 5)" "length (replicate 32 (5 :: byte)) = 32"
    "local_pub ?kc = Some ?q"
    by (simp_all add: kex_client_def demo_pair_def)
  have nz: "\<not> is_zero (arr 32 (x25519_shared demo_crypto (map (os_rng demo_crypto) [c_rng kex_server..<c_rng kex_server + 32]) ?q))"
    by (simp add: is_zero_def demo_crypto_def arr_def upt_rec)
  have st: "\<not> recv_newkeys kex_server" "\<not> recv_newkeys kex_client" "strict_kex kex_server = strict_kex kex_client"
    "dk_ok demo_crypto (send_cipher kex_server)" "dk_ok demo_crypto (send_cipher kex_client)"
    "in_step kex_server kex_client" "in_step kex_client kex_server"
    using demo_crypto_ok by (simp_all add: kex_server_def kex_client_def demo_simps dk_ok_def in_step_def)
  from key_exchange_matches [OF demo_crypto_dh pair srv cl refl nz st] show ?thesis by (auto simp: Let_def)
qed

theorem proposals_pair_witness:
  "paired (snd (on_kexinit demo_crypto (raw (demo_ki CLIENT_KEX)) kex_server))
     (snd (on_kexinit demo_crypto (raw (demo_ki SERVER_KEX)) kex_client))"
proof -
  let ?ks = "demo_kex (demo_ki SERVER_KEX) (demo_ki CLIENT_KEX)" and ?kc = "demo_pair (demo_ki CLIENT_KEX) (demo_ki SERVER_KEX)"
  have o: "ours ?ks = proposal Server (replicate 16 0)" "ours ?kc = proposal Client (replicate 16 0)"
    by (simp_all add: demo_kex_def demo_pair_def demo_ki_def proposal_def)
  have raws: "raw (ours ?kc) = raw (demo_ki CLIENT_KEX)" "raw (ours ?ks) = raw (demo_ki SERVER_KEX)"
    by (simp_all add: demo_kex_def demo_pair_def)
  have st: "c_role kex_server = Server" "c_role kex_client = Client" "ident_peer kex_server = Some (ident_local kex_client)"
    "ident_peer kex_client = Some (ident_local kex_server)" "session_id kex_server = session_id kex_client"
    "c_kex kex_server = Some ?ks" "c_kex kex_client = Some ?kc" "length (replicate 16 (0 :: byte)) = 16"
    by (simp_all add: kex_server_def kex_client_def demo_simps)
  obtain rs s' rc c' where run: "on_kexinit demo_crypto (raw (ours ?kc)) kex_server = (rs, s')"
    "on_kexinit demo_crypto (raw (ours ?ks)) kex_client = (rc, c')" by fastforce
  from proposals_pair [OF st(1-6) o(1) st(8,7) o(2) st(8) run] run show ?thesis by (simp add: raws)
qed

end
