(* ===== verification/Conn_Panic.thy ===== *)
theory Conn_Panic
  imports Conn_Run
begin

text \<open>
  No call panics. The source unwraps options, indexes slots and payloads and slices buffers at many
  places; in the states that satisfy the connection invariant none of them fails, whatever bytes the
  peer sends.
\<close>

section \<open>Operations that panic in no state\<close>

lemma np_rng [np_intro]: "never_panics (rng_fill C n)"
  by (simp add: never_panics_def rng_fill_def)

lemma np_event [np_intro]: "never_panics (push_event e)"
  unfolding push_event_def by (intro np_intro)

lemma np_table: "never_panics m \<Longrightarrow> never_panics (on_table m)"
  by (auto simp: never_panics_def on_table_def split: prod.splits) (metis fst_conv)

lemma np_update [np_intro]: "never_panics (on_table (ct_update i f))"
  by (rule np_table) (simp add: never_panics_def ct_update_def split: option.splits)

lemma np_push_in [np_intro]: "never_panics (on_table (ct_update_act i (push_in d)))"
  by (rule np_table) (auto simp: never_panics_def ct_update_act_def push_in_def Let_def split: option.splits)

lemma np_get [np_intro]: "never_panics (tryR (ct_get t i))"
  unfolding ct_get_def by (rule np_ok_or) simp

lemma np_take_inbound [np_intro]: "never_panics (on_table (ct_update_act i (take_inbound n)))"
  unfolding update_take_inbound by (rule np_update)

lemma np_maybe_adjust [np_intro]: "never_panics (maybe_adjust C i)"
  unfolding maybe_adjust_def Let_def by (intro np_intro)

lemma np_consume_inbound [np_intro]: "never_panics (consume_inbound C i n)"
  unfolding consume_inbound_def by (intro np_intro)

lemma np_send_pkt [np_intro]: "never_panics (send_channel_data_pkt C r d)"
  unfolding send_channel_data_pkt_def by (intro np_intro)

lemma np_enqueue [np_intro]: "never_panics (enqueue_or_send C i chunk)"
  unfolding enqueue_or_send_eq Let_def by (intro np_intro)

lemma np_send_loop: "calm c (send_data_loop C i data sent)"
proof (induction C i data sent c rule: send_data_loop_induct)
  case (step C i data sent c)
  let ?n = "min (conn_outbound_allowance c i) (length data - sent)"
  obtain r c' where e: "enqueue_or_send C i (take ?n (drop sent data)) c = (r, c')" by fastforce
  then have "r \<noteq> Inl Panic" using calm_np [OF np_enqueue] unfolding calm_def by (metis fst_conv)
  moreover have "calm c' (send_data_loop C i data (sent + ?n))"
    if "sent < length data" "conn_outbound_allowance c i \<noteq> 0" "r = Inr u" for u
    using step [OF that(1,2) refl] e that(3) by blast
  ultimately show ?case
    unfolding calm_def by (subst send_data_loop_eq) (auto simp: Let_def e split: sum.splits)
qed

lemma np_send_data [np_intro]: "never_panics (send_data C i data)"
  unfolding send_data_def by (intro np_intro never_panics_gen np_send_loop)

lemma np_flush_loop [np_intro]: "never_panics (flush_loop C i)"
proof (rule never_panics_gen)
  fix c
  show "calm c (flush_loop C i)"
  proof (induction C i c rule: flush_loop.induct)
    case (1 C i c)
    show ?case
    proof (cases "\<exists>ch b remote. flush_round c i = Inr (Some (ch, b, remote))")
      case False
      then show ?thesis
        unfolding calm_def
        by (subst flush_loop.simps) (auto simp: flush_round_eq simp del: not_None_eq split: sum.splits option.splits)
    next
      case True
      then obtain ch b remote where fr: "flush_round c i = Inr (Some (ch, b, remote))" by blast
      obtain r c' where q: "send_channel_data_pkt C remote b
          (c\<lparr>c_channels := snd (ct_update i (\<lambda>_. ch) (c_channels c))\<rparr>) = (r, c')" by fastforce
      then have "r \<noteq> Inl Panic" using calm_np [OF np_send_pkt] unfolding calm_def by (metis fst_conv)
      then show ?thesis
        using 1 [OF fr refl refl refl q [symmetric]] unfolding calm_def
        by (subst flush_loop.simps) (auto simp: fr q split: sum.splits)
    qed
  qed
qed

lemma np_flush [np_intro]: "never_panics (flush_pending C i)" "never_panics (flush_pending_all C)"
  unfolding flush_pending_all_def flush_pending_def by (intro np_intro)+

lemma np_emit [np_intro]: "never_panics (emit_eof_if_ready C i)" "never_panics (emit_close_if_ready C i)"
  unfolding emit_eof_if_ready_def emit_close_if_ready_def by (intro np_intro)+

lemma np_send_eof_close [np_intro]: "never_panics (send_eof C i)" "never_panics (send_close C i)"
  unfolding send_eof_def send_close_def by (intro np_intro)+

lemma np_confirm_fail [np_intro]: "never_panics (confirm_open C i)" "never_panics (fail_open C i r m)"
  unfolding confirm_open_def fail_open_def by (intro np_intro np_ok_or; simp)+

lemma np_channel_msgs [np_intro]: "never_panics (on_open_confirm C p)" "never_panics (on_open_fail p)"
  "never_panics (on_window_adjust C p)" "never_panics (on_ext_data p)" "never_panics (on_channel_eof p)"
  "never_panics (on_channel_close C p)" "never_panics (on_channel_request C p)" "never_panics (on_ping C p)"
  "never_panics (on_global_request C p)"
  unfolding on_open_confirm_def on_open_fail_def on_window_adjust_def on_ext_data_def on_channel_eof_def
    on_channel_close_def on_channel_request_def on_ping_def on_global_request_def
  by (intro np_intro)+

lemma np_channel_data [np_intro]: "never_panics (on_channel_data p)"
  unfolding on_channel_data_eq Let_def by (intro np_intro np_fail) simp_all

lemma np_start_kex [np_intro]: "never_panics (start_kex C)"
  unfolding start_kex_def Let_def by (intro np_intro)

lemma np_complete [np_intro]: "never_panics (try_complete_kex C)"
  unfolding try_complete_kex_def flush_post_rekey_def send_ext_info_def send_service_request_def
  by (intro np_intro)

lemma np_send_newkeys [np_intro]: "never_panics (send_newkeys C)"
  unfolding send_newkeys_def by (intro np_intro)

lemma np_on_newkeys [np_intro]: "never_panics (on_newkeys C)"
  unfolding on_newkeys_def by (intro np_intro np_fail) simp

lemma np_send_ecdh [np_intro]: "never_panics (send_ecdh_init C)"
  unfolding send_ecdh_init_def by (intro np_intro np_ok_or) simp

lemma np_service [np_intro]: "never_panics (on_service_request C p)"
  unfolding on_service_request_def by (intro np_intro np_fail) simp

lemma np_disconnect [np_intro]: "never_panics (disconnect C r m)"
  unfolding disconnect_def Let_def by (intro np_intro)

lemma np_auth_fail [np_intro]: "never_panics (auth_fail C cfg)"
  unfolding auth_fail_def by (intro np_intro)

lemma np_rekey [np_intro]: "never_panics (maybe_rekey C)"
  unfolding maybe_rekey_def by (intro np_intro)

section \<open>Operations that rely on the invariant\<close>

lemma calm_alloc: "conn_inv c \<Longrightarrow> calm c (on_table (ct_alloc ch))"
  using ct_alloc_Inl [of "c_channels c" ch]
  by (cases "ct_alloc ch (c_channels c)") (auto simp: on_table_def conn_inv_def tbl_inv_def calm_def)

lemma calm_open_direct: "conn_inv c \<Longrightarrow> calm c (open_direct_tcpip C host port)"
  unfolding open_direct_tcpip_def Let_def
  by (intro calm_withS calm_if calm_bindE calm_alloc calm_np [OF np_fail] calm_np [OF np_queue]
      calm_np [OF np_basic(1)]) simp_all

lemma calm_channel_open: "conn_inv c \<Longrightarrow> calm c (on_channel_open C p)"
  unfolding on_channel_open_def Let_def
  by (intro calm_withS calm_if calm_useE calm_bindE calm_alloc calm_np [OF np_fail] calm_np [OF np_queue]
      calm_np [OF np_event] np_parsers np_parsers2 np_str) simp_all

text \<open>Deriving keys fails with an error value at worst, and parsing a KEXINIT too.\<close>

lemma make_keys_no_panic: "make_keys C k h sid kl il kind \<noteq> Inl Panic"
  by (auto simp: make_keys_def Let_def dk_from_material_def aes_new_def map_sum_def
      split: cipher_kind.splits sum.splits if_splits)

lemma calm_finish_kex: "ident_peer c \<noteq> None \<Longrightarrow> calm c (finish_kex C q_c q_s sh)"
  unfolding finish_kex_def Let_def split_def
  by (intro calm_withS calm_np np_intro np_ok_or np_tryR make_keys_no_panic) simp_all

lemma start_kex_kex: "start_kex C c = (Inr u, c') \<Longrightarrow> c_kex c' \<noteq> None"
  by (auto simp: start_kex_def Let_def withS_def bindE_Inr modify_def split_def)

lemma kexinit_parse_no_panic: "kexinit_parse p \<noteq> Inl Panic"
  unfolding kexinit_parse_def calm_def [symmetric] by (intro calm_np np_intro np_fail) simp

lemma negotiate_kex_no_panic: "negotiate_kex th k \<noteq> Inl Panic"
  unfolding negotiate_kex_def calm_def [symmetric] by (intro calm_np np_intro np_ok_or np_fail) simp_all

lemma np_on_kexinit [np_intro]: "never_panics (on_kexinit C p)"
proof -
  let ?start = "withS (\<lambda>c. if c_kex c = None then start_kex C else ret ())"
  have kx: "c_kex c' \<noteq> None" if "?start c = (Inr u, c')" for c c' u
    using that by (auto simp: withS_def ret_def dest: start_kex_kex split: if_splits)
  show ?thesis
    unfolding on_kexinit_def Let_def
    by (rule never_panics_gen, rule calm_tryR [OF kexinit_parse_no_panic], rule calm_bindE [OF calm_np],
        intro np_intro, drule kx)
      (intro calm_withS calm_tryR calm_modify calm_if ok_or_no_panic negotiate_kex_no_panic
        calm_np [OF np_send_ecdh] calm_np [OF np_basic(1)], simp)
qed

lemma calm_ecdh_init:
  assumes "conn_inv c" and "ident_in_done c"
  shows "calm c (on_ecdh_init C p)"
proof -
  have peer: "ident_peer c \<noteq> None" and server: "c_role c = Server \<Longrightarrow> c_server c \<noteq> None"
    using assms by (simp_all add: conn_inv_def)
  have rng: "ident_peer c' \<noteq> None" if "rng_fill C n c = (Inr x, c')" for n x c'
    using that peer by (auto simp: rng_fill_def)
  show ?thesis
    unfolding on_ecdh_init_def Let_def
    by (intro calm_withS calm_if calm_useE calm_tryR calm_modify calm_bindE np_parsers np_parsers2
        ok_or_no_panic calm_finish_kex calm_np [OF np_rng] calm_np [OF np_fail] calm_np [OF np_queue]
        calm_np [OF np_send_newkeys]) (auto simp: server rng dest: finish_kex_last_h)
qed

lemma calm_ecdh_reply:
  assumes "conn_inv c" and "ident_in_done c"
  shows "calm c (on_ecdh_reply C p)"
proof -
  have peer: "ident_peer c \<noteq> None" using assms by (simp add: conn_inv_def)
  show ?thesis
    unfolding on_ecdh_reply_def Let_def
    by (intro calm_withS calm_if calm_useE calm_tryR calm_modify calm_bindE np_parsers np_parsers2
        ok_or_no_panic calm_finish_kex calm_np [OF np_fail] calm_np [OF np_send_newkeys])
      (auto simp: peer)
qed

lemma calm_service_accept: "conn_inv c \<Longrightarrow> calm c (on_service_accept C)"
  unfolding on_service_accept_def
  by (intro calm_withS calm_if calm_tryR ok_or_no_panic calm_np [OF np_queue] calm_np [OF np_basic(1)])
    (auto simp: conn_inv_def intro: role.exhaust)

lemma calm_userauth: "conn_inv c \<Longrightarrow> calm c (on_userauth_request C p)"
  unfolding on_userauth_request_def
  by (intro calm_withS calm_if calm_tryR ok_or_no_panic calm_np [OF np_basic(1)] calm_np np_intro np_fail)
    (auto simp: conn_inv_def)

section \<open>No packet panics\<close>

lemma calm_handle_payload:
  assumes "conn_inv c" and "ident_in_done c" and p: "p \<noteq> []"
  shows "calm c (handle_payload C p)"
  unfolding handle_payload_def index_first [OF p] Let_def
  by (intro calm_if calm_channel_open calm_ecdh_init calm_ecdh_reply calm_service_accept calm_userauth
      assms(1,2) calm_np np_intro np_fail) simp_all

lemma calm_accept:
  assumes "conn_inv c" and "ident_in_done c" and p: "p \<noteq> []"
  shows "calm c (accept_payload C n p)"
  unfolding accept_payload_def index_first [OF p] Let_def
  by (intro calm_modify calm_withS calm_if calm_np [OF np_fail] calm_handle_payload)
    (use assms in \<open>simp_all add: conn_inv_def out_inv_def\<close>)

lemma calm_try_one_packet:
  assumes "conn_inv c" and "ident_in_done c"
  shows "calm c (try_one_packet C)"
proof -
  obtain r c' where t: "try_one_packet C c = (r, c')" by fastforce
  then show ?thesis
  proof (cases rule: try_one_packet_cases)
    case (payload tot keys p u)
    have "calm (c\<lparr>read_buf := drop tot (read_buf c), recv_cipher := keys\<rparr>) (accept_payload C tot p)"
      using assms payload(3) by (intro calm_accept) simp_all
    with payload t show ?thesis by (cases u) (simp_all add: calm_def)
  qed (simp_all add: t calm_def)
qed

lemma try_one_packet_ident:
  assumes "try_one_packet C c = (r, c')"
  shows "ident_in_done c' = ident_in_done c"
  using assms
proof (cases rule: try_one_packet_cases)
  case (payload tot keys p u)
  then show ?thesis using ensuresD [OF ev.ens_accept payload(4)] by (simp add: evolves_def env_of_def)
qed simp_all

lemma calm_process_loop: "conn_inv c \<Longrightarrow> ident_in_done c \<Longrightarrow> calm c (process_loop C)"
proof (induction C c rule: process_loop.induct)
  case (1 C c)
  obtain r c' where t: "try_one_packet C c = (r, c')" by fastforce
  have "conn_inv c'" "ident_in_done c'"
    using try_one_packet_inv [OF 1(2), of C] try_one_packet_ident [OF t] 1(3) t by simp_all
  with calm_try_one_packet [OF 1(2,3), of C] t 1(1) [OF t [symmetric]] show ?case
    by (subst (asm) calm_def, subst calm_def, subst process_loop.simps) (auto simp: calm_def split: sum.splits)
qed

lemma np_try_ident: "never_panics try_ident"
  unfolding try_ident_def Let_def by (intro np_intro np_fail np_tryR) (auto simp: from_utf8_def)

lemma calm_process_in:
  assumes "conn_inv c"
  shows "calm c (process_in C)"
proof -
  have loop: "calm d (bindE (process_loop C) (\<lambda>_. bindE (maybe_rekey C) (\<lambda>_. flush_pending_all C)))"
    if "conn_inv d" "ident_in_done d" for d
    by (rule calm_bindE [OF calm_process_loop [OF that]]) (intro calm_np np_intro)
  show ?thesis
  proof (cases "ident_in_done c")
    case True
    with loop [OF assms] process_in_known show ?thesis by (simp add: calm_def)
  next
    case False
    obtain r d where t: "try_ident c = (r, d)" by fastforce
    have "conn_inv d" using try_ident_inv [OF assms] t by simp
    then have "conn_inv (maybe_start_kex C d)" "ident_in_done (maybe_start_kex C d) = ident_in_done d"
      using maybe_start_inv maybe_start_evolves [of d C] by (simp_all add: evolves_def env_of_def)
    with loop [of "maybe_start_kex C d"] calm_np [OF np_try_ident, of c] t show ?thesis
      by (auto simp: calm_def process_in_ident [OF False t] split: sum.splits)
  qed
qed

section \<open>Properties\<close>

text \<open>Claim C1. Whatever bytes the peer has sent and whatever calls the adapter has made before,
  process_in never panics: no unwrap of an absent option, no slot index and no index or slice of
  the read buffer, a packet, a payload or a data chunk out of range is reachable from the
  constructors.\<close>

theorem process_in_no_panic:
  assumes "conn_reach C c"
  shows "fst (process_in C c) \<noteq> Inl Panic"
  using calm_process_in [OF reach_inv [OF assms]] by (simp add: calm_def)

theorem process_in_no_panic_witness:
  "fst (process_in demo_crypto ((conn_server demo_crypto demo_server_cfg 0)\<lparr>read_buf :=
     read_buf (conn_server demo_crypto demo_server_cfg 0) @ [83, 83, 72, 10, 0, 255]\<rparr>)) \<noteq> Inl Panic"
  by (rule process_in_no_panic [OF reach_step [OF reach_server step_feed]])

text \<open>Claim C23. In a reachable state, whatever channel id, data, host or port is passed,
  open_direct_tcpip does not index a slot out of range, send_data neither slices its data or a
  chunk out of range nor unwraps an absent peer id, consume_inbound neither pops an empty queue
  nor splits a chunk past its end, and send_eof, send_close, confirm_open, fail_open, disconnect
  and start_kex, which share the sealing of messages, do not panic either.\<close>

theorem calls_no_panic:
  assumes "conn_reach C c"
  shows "fst (open_direct_tcpip C host port c) \<noteq> Inl Panic \<and> fst (send_data C i data c) \<noteq> Inl Panic \<and>
    fst (consume_inbound C i n c) \<noteq> Inl Panic \<and> fst (send_eof C i c) \<noteq> Inl Panic \<and>
    fst (send_close C i c) \<noteq> Inl Panic \<and> fst (confirm_open C i c) \<noteq> Inl Panic \<and>
    fst (fail_open C i reason msg c) \<noteq> Inl Panic \<and> fst (disconnect C reason msg c) \<noteq> Inl Panic \<and>
    fst (start_kex C c) \<noteq> Inl Panic"
  using calm_open_direct [OF reach_inv [OF assms]] calm_np [OF np_send_data] calm_np [OF np_send_eof_close(1)]
    calm_np [OF np_send_eof_close(2)] calm_np [OF np_confirm_fail(1)] calm_np [OF np_confirm_fail(2)]
    calm_np [OF np_consume_inbound] calm_np [OF np_disconnect] calm_np [OF np_start_kex]
  by (simp add: calm_def)

theorem calls_no_panic_witness:
  "fst (open_direct_tcpip demo_crypto (lit ''h'') 80 (conn_client demo_crypto demo_client_cfg 0)) \<noteq> Inl Panic"
  using calls_no_panic [OF reach_client] by blast

end
