(* ===== verification/Conn_Secure.thy ===== *)
theory Conn_Secure
  imports Conn_Run
begin

text \<open>
  Who may do what when: how a connection becomes authenticated, what strict key exchange refuses,
  and what is held back while a key exchange runs.
\<close>

section \<open>Authentication\<close>

lemma auth_fail_same: "ensures (\<lambda>c c'. auth_of c' = auth_of c) (auth_fail C cfg)"
  unfolding auth_fail_def by (intro au.ens_withS_all au.ens_if au.ens_disconnect au.ens_queue)

lemma auth_fail_authed: "auth_fail C cfg c = (r, c') \<Longrightarrow> c_authed c' = c_authed c"
  using ensuresD [OF auth_fail_same] by (simp add: auth_of_def)

text \<open>The payload a client sends to authenticate by password.\<close>

definition password_request :: "rstr \<Rightarrow> rstr \<Rightarrow> bytes" where
  "password_request user password =
     put_str (put_bool (put_str (put_str (put_str [SSH_MSG_USERAUTH_REQUEST] user)
       (lit ''ssh-connection'')) (lit ''password'')) False) password"

lemma put_str_app: "put_str b s = b @ put_str [] s"
  by (simp add: put_str_def put_bytes_def put_u32_def)

lemma password_request_eq:
  "password_request user password = SSH_MSG_USERAUTH_REQUEST # put_str [] user @
     put_str [] (lit ''ssh-connection'') @ put_str [] (lit ''password'') @ 0 # put_str [] password"
  unfolding password_request_def
  by (subst put_str_app, simp add: put_bool_def)
    (subst (2) put_str_app, subst (4) put_str_app, simp add: put_str_app [of "_ # _"])

text \<open>The steps of the state machine on the path that authenticates.\<close>

abbreviation grant :: "crypto \<Rightarrow> rstr \<Rightarrow> (conn, unit) act" where
  "grant C user \<equiv>
     bindE (modify (\<lambda>c. c\<lparr>c_authed := True, c_user := Some user, kex_blocks_app := False\<rparr>)) (\<lambda>_.
     bindE (queue_msg C [SSH_MSG_USERAUTH_SUCCESS] True) (\<lambda>_. push_event (HandshakeComplete user)))"

lemma userauth_parsed:
  assumes run: "on_userauth_request C p c = (r, c')" and old: "\<not> c_authed c" and new: "c_authed c'"
  obtains cfg t p1 user p2 p3 p4 p5 password p6 where "c_role c = Server" "c_server c = Some cfg"
    "p_u8 (parser_new p) = (Inr t, p1)" "p_str p1 = (Inr user, p2)"
    "p_str p2 = (Inr (lit ''ssh-connection''), p3)" "p_str p3 = (Inr (lit ''password''), p4)"
    "p_bool p4 = (Inr False, p5)" "p_str p5 = (Inr password, p6)"
    "check_password C cfg user password" "grant C user c = (r, c')"
proof -
  have ne: "c' \<noteq> c" using old new by auto
  have role: "c_role c = Server"
    using run ne by (auto simp: on_userauth_request_def withS_def ret_def split: if_splits)
  obtain cfg where cfg: "c_server c = Some cfg"
    using run ne by (cases "c_server c") (auto simp: on_userauth_request_def act_defs role)
  have "bindE (modify (\<lambda>c. c\<lparr>auth_fails := auth_fails c + 1\<rparr>)) (\<lambda>_. auth_fail C cfg) c \<noteq> (r, c')"
    using old new by (auto simp: bindE_modify dest: auth_fail_authed)
  moreover have "auth_fail C cfg c \<noteq> (r, c')" "fail e c \<noteq> (r, c')" for e :: error
    using old new ne by (auto simp: fail_def dest: auth_fail_authed)
  moreover have "(if c_role c \<noteq> Server then ret () else (bindE (tryR (ok_or Panic (c_server c))) x)) c =
      x cfg c" for x :: "server_config \<Rightarrow> (conn, unit) act"
    by (simp add: role cfg ok_or_def bindE_tryR)
  ultimately show thesis
    using run ne that [OF role cfg] unfolding on_userauth_request_def withS_def
    by (auto elim!: useE_changed split: if_splits)
qed

text \<open>
  A request that authenticates the connection is a password request for a user and password of the
  configuration, and it is that user who is recorded.
\<close>

lemma userauth_authenticates:
  assumes "on_userauth_request C p c = (r, c')" and "\<not> c_authed c" and "c_authed c'"
    and first: "p ! 0 = SSH_MSG_USERAUTH_REQUEST"
  shows "\<exists>cfg user password rest. c_role c = Server \<and> c_server c = Some cfg \<and>
    check_password C cfg user password \<and> p = password_request user password @ rest \<and> c_user c' = Some user"
proof -
  from assms(1-3) obtain cfg t p1 user p2 p3 p4 p5 password p6 where
    cfg: "c_role c = Server" "c_server c = Some cfg" "check_password C cfg user password" and
    parse: "p_u8 (parser_new p) = (Inr t, p1)" "p_str p1 = (Inr user, p2)"
      "p_str p2 = (Inr (lit ''ssh-connection''), p3)" "p_str p3 = (Inr (lit ''password''), p4)"
      "p_bool p4 = (Inr False, p5)" "p_str p5 = (Inr password, p6)" and auth: "grant C user c = (r, c')"
    by (rule userauth_parsed)
  obtain r1 where r1: "p = t # r1" "cursor p1 r1" using readsE [OF reads_u8 parse(1) cursor_new] by auto
  obtain r2 where r2: "r1 = put_str [] user @ r2" "cursor p2 r2" using readsE [OF reads_str parse(2) r1(2)] .
  obtain r3 where r3: "r2 = put_str [] (lit ''ssh-connection'') @ r3" "cursor p3 r3"
    using readsE [OF reads_str parse(3) r2(2)] .
  obtain r4 where r4: "r3 = put_str [] (lit ''password'') @ r4" "cursor p4 r4"
    using readsE [OF reads_str parse(4) r3(2)] .
  obtain r5 where r5: "r4 = 0 # r5" "cursor p5 r5" using reads_bool_False [OF parse(5) r4(2)] by auto
  obtain r6 where r6: "r5 = put_str [] password @ r6" using readsE [OF reads_str parse(6) r5(2)] .
  have "p = password_request user password @ r6"
    using first by (simp add: password_request_eq r1(1) r2(1) r3(1) r4(1) r5(1) r6)
  moreover have same: "ensures (\<lambda>c c'. auth_of c' = auth_of c)
      (bindE (queue_msg C [SSH_MSG_USERAUTH_SUCCESS] True) (\<lambda>_. push_event (HandshakeComplete user)))"
    by (intro au.ens_bindE au.ens_queue au.ens_event opens_not)
  have "c_user c' = Some user"
    using ensuresD [OF same auth [unfolded bindE_modify]] by (simp add: auth_of_def)
  ultimately show ?thesis using cfg by blast
qed

lemma handle_userauth:
  "p \<noteq> [] \<Longrightarrow> p ! 0 = SSH_MSG_USERAUTH_REQUEST \<Longrightarrow> handle_payload C p = on_userauth_request C p"
  by (simp add: handle_payload_def)

lemma handle_empty: "handle_payload C [] c = (Inl Panic, c)"
  by (simp add: handle_payload_def index_def bindE_tryR)

text \<open>Conversely, what a well-formed password request does.\<close>

lemma userauth_run:
  assumes role: "c_role c = Server" "c_server c = Some cfg"
    and ok: "length user < 2 ^ 32 \<and> utf8_ok user" "length password < 2 ^ 32 \<and> utf8_ok password"
  shows "handle_payload C (password_request user password) c =
    (if check_password C cfg user password then grant C user
     else bindE (modify (\<lambda>c. c\<lparr>auth_fails := auth_fails c + 1\<rparr>)) (\<lambda>_. auth_fail C cfg)) c"
proof -
  let ?p = "password_request user password"
  let ?conn = "lit ''ssh-connection''" and ?pw = "lit ''password''"
  have lits: "length ?conn < 2 ^ 32 \<and> utf8_ok ?conn" "length ?pw < 2 ^ 32 \<and> utf8_ok ?pw" by simp_all
  have p: "?p = put_u8 [] SSH_MSG_USERAUTH_REQUEST @ put_str [] user @ put_str [] ?conn @ put_str [] ?pw @
      put_bool [] False @ put_str [] password @ []"
    by (simp add: password_request_eq put_u8_def put_bool_def)
  note r = cursor_new [of ?p, unfolded p]
  obtain p1 where 1: "p_u8 (parser_new ?p) = (Inr SSH_MSG_USERAUTH_REQUEST, p1)" "cursor p1 (put_str [] user @
      put_str [] ?conn @ put_str [] ?pw @ put_bool [] False @ put_str [] password @ [])"
    using wu8.get_put [OF TrueI] r unfolding p yields_def by blast
  obtain p2 where 2: "p_str p1 = (Inr user, p2)" "cursor p2 (put_str [] ?conn @ put_str [] ?pw @
      put_bool [] False @ put_str [] password @ [])" using wstr.get_put [OF ok(1)] 1(2) unfolding yields_def by blast
  obtain p3 where 3: "p_str p2 = (Inr ?conn, p3)" "cursor p3 (put_str [] ?pw @ put_bool [] False @
      put_str [] password @ [])" using wstr.get_put [OF lits(1)] 2(2) unfolding yields_def by blast
  obtain p4 where 4: "p_str p3 = (Inr ?pw, p4)" "cursor p4 (put_bool [] False @ put_str [] password @ [])"
    using wstr.get_put [OF lits(2)] 3(2) unfolding yields_def by blast
  obtain p5 where 5: "p_bool p4 = (Inr False, p5)" "cursor p5 (put_str [] password @ [])"
    using wbool.get_put [OF TrueI] 4(2) unfolding yields_def by blast
  obtain p6 where 6: "p_str p5 = (Inr password, p6)" using wstr.get_put [OF ok(2)] 5(2) unfolding yields_def by blast
  have ne: "?pw \<noteq> lit ''none''" by (simp add: lit_def)
  have "?p \<noteq> []" "?p ! 0 = SSH_MSG_USERAUTH_REQUEST" by (simp_all add: password_request_eq)
  then show ?thesis
    using ne by (simp add: handle_userauth on_userauth_request_def withS_def role ok_or_def bindE_tryR useE_def
        1(1) 2(1) 3(1) 4(1) 5(1) 6)
qed

section \<open>What is held back during a key exchange\<close>

text \<open>
  \<open>held\<close>: if the exchange blocks the application before the step, it does so after it, and no byte
  has been added to the output.
\<close>

definition held :: "conn \<Rightarrow> conn \<Rightarrow> bool" where
  "held c c' \<longleftrightarrow> (kex_blocks_app c \<longrightarrow> kex_blocks_app c' \<and> out_of c' = out_of c)"

interpretation hd: act_preorder held
  by unfold_locales (auto simp: held_def)

lemma held_table: "ensures held (on_table m)"
  by (rule ensures_gen) (auto simp: held_def on_table_def out_of_def split: prod.splits)

lemma held_blocked:
  "(\<And>c. kex_blocks_app c \<Longrightarrow> held c (snd (f c c))) \<Longrightarrow> ensures held (withS f)"
  by (rule hd.ens_withS) (auto simp: held_def)

lemma held_maybe_adjust: "ensures held (maybe_adjust C i)"
  unfolding maybe_adjust_def by (rule held_blocked) (simp add: ret_def hd.R_refl)

lemma held_emit: "ensures held (emit_eof_if_ready C i)" "ensures held (emit_close_if_ready C i)"
  unfolding emit_eof_if_ready_def emit_close_if_ready_def
  by (rule held_blocked, simp add: ret_def hd.R_refl)+

lemma held_flush: "ensures held (flush_pending C i)"
  unfolding flush_pending_def by (rule held_blocked) (simp add: ret_def hd.R_refl)

lemma held_consume_inbound: "ensures held (consume_inbound C i n)"
  unfolding consume_inbound_def
  by (intro hd.ens_withS_all hd.ens_option hd.ens_if hd.ens_ret hd.ens_bindE hd.ens_ignore held_table
      held_maybe_adjust)

lemma held_send_eof: "ensures held (send_eof C i)"
  unfolding send_eof_def
  by (intro hd.ens_withS_all hd.ens_bindE hd.ens_tryR hd.ens_if hd.ens_ret held_table held_emit)

lemma held_send_close: "ensures held (send_close C i)"
  unfolding send_close_def
  by (intro hd.ens_withS_all hd.ens_bindE hd.ens_tryR hd.ens_if hd.ens_ret held_table held_emit)

text \<open>Data handed in during an exchange is parked on the channel, in order.\<close>

abbreviation park :: "bytes \<Rightarrow> channel \<Rightarrow> channel" where
  "park chunk ch \<equiv>
     ch\<lparr>pending_out_bytes := pending_out_bytes ch + length chunk, pending_out := pending_out ch @ [chunk]\<rparr>"

lemma enqueue_blocked:
  assumes "kex_blocks_app c" and "chan c i = Some ch"
  shows "enqueue_or_send C i chunk c =
    (Inr (), c\<lparr>c_channels := snd (ct_update i (\<lambda>_. park chunk ch) (c_channels c))\<rparr>)"
  using assms
  by (simp add: enqueue_or_send_eq withS_def ct_get_def ok_or_def bindE_tryR Let_def on_table_def
      ct_update_def)

lemma chan_put:
  assumes "chan c i = Some ch"
  shows "chan (c\<lparr>c_channels := snd (ct_update i (\<lambda>_. d) (c_channels c))\<rparr>) i = Some d"
  using assms by (auto simp: ct_update_def ct_look_def split: if_splits)

text \<open>\<open>parked d ch ch'\<close>: the bytes \<open>d\<close> have been added at the end of what waits to be sent.\<close>

definition parked :: "bytes \<Rightarrow> channel \<Rightarrow> channel \<Rightarrow> bool" where
  "parked d ch ch' \<longleftrightarrow> concat (pending_out ch') = concat (pending_out ch) @ d \<and>
     pending_out_bytes ch' = pending_out_bytes ch + length d"

lemma parked_refl: "parked [] ch ch"
  by (simp add: parked_def)

lemma parked_park: "parked d (park chunk ch) ch' \<Longrightarrow> parked (chunk @ d) ch ch'"
  by (simp add: parked_def)

lemma held_enqueue: "ensures held (enqueue_or_send C i chunk)"
  unfolding enqueue_or_send_eq
proof (rule held_blocked, goal_cases)
  case (1 c)
  have "ensures held (bindE (tryR (ct_get (c_channels c) i)) (\<lambda>ch. on_table (ct_update i (park chunk))))"
    by (intro hd.ens_bindE hd.ens_tryR held_table)
  with 1 show ?case by (simp add: Let_def ensures_def)
qed

lemma held_send_data: "ensures held (send_data C i data)"
  unfolding send_data_def
  by (intro hd.ens_if hd.ens_ret ens_send_loop held_enqueue) (rule hd.act_preorder_axioms)

lemma send_loop_blocked:
  assumes "kex_blocks_app c" and "chan c i = Some ch" and "sent \<le> length data"
  shows "\<exists>n c' ch'. send_data_loop C i data sent c = (Inr (sent + n), c') \<and> sent + n \<le> length data \<and>
    chan c' i = Some ch' \<and> out_of c' = out_of c \<and> parked (take n (drop sent data)) ch ch' \<and>
    (sent + n = length data \<or> pending_out_bytes ch' \<ge> 256 * 1024 \<or> c_max_packet c = 0)"
  using assms
proof (induction C i data sent c arbitrary: ch rule: send_data_loop_induct)
  case (step C i data sent c)
  note blk = step(2) and ch = step(3) and le = step(4)
  let ?al = "conn_outbound_allowance c i"
  define n where "n = min ?al (length data - sent)"
  have al: "?al = min (256 * 1024 - pending_out_bytes ch) (unat (c_max_packet c))"
    using blk ch by (simp add: conn_outbound_allowance_def Let_def)
  show ?case
  proof (cases "sent < length data \<and> ?al \<noteq> 0")
    case False
    then have "send_data_loop C i data sent c = (Inr (sent + 0), c)"
      by (subst send_data_loop_eq) (auto simp: Let_def)
    moreover have "sent = length data \<or> pending_out_bytes ch \<ge> 256 * 1024 \<or> c_max_packet c = 0"
      using False al le by (auto simp: min_def unat_eq_0 split: if_splits)
    ultimately show ?thesis using ch le parked_refl by (intro exI [of _ 0] exI [of _ c] exI [of _ ch]) simp
  next
    case True
    let ?chunk = "take n (drop sent data)"
    let ?c = "c\<lparr>c_channels := snd (ct_update i (\<lambda>_. park ?chunk ch) (c_channels c))\<rparr>"
    have e: "enqueue_or_send C i ?chunk c = (Inr (), ?c)" using enqueue_blocked [OF blk ch] .
    have loop: "send_data_loop C i data sent c = send_data_loop C i data (sent + n) ?c"
      using True e by (subst send_data_loop_eq) (simp add: Let_def n_def [symmetric])
    have "kex_blocks_app ?c" "chan ?c i = Some (park ?chunk ch)" "sent + n \<le> length data"
      using blk chan_put [OF ch] True by (auto simp: n_def)
    from step(1) [OF conjunct1 [OF True] conjunct2 [OF True] n_def e this]
    obtain m c' ch' where ih: "send_data_loop C i data (sent + n) ?c = (Inr (sent + n + m), c')"
      "sent + n + m \<le> length data" "chan c' i = Some ch'" "out_of c' = out_of ?c"
      "parked (take m (drop (sent + n) data)) (park ?chunk ch) ch'"
      "sent + n + m = length data \<or> pending_out_bytes ch' \<ge> 256 * 1024 \<or> c_max_packet ?c = 0"
      by blast
    have "?chunk @ take m (drop (sent + n) data) = take (n + m) (drop sent data)"
      by (simp add: take_add add.commute [of sent n])
    with parked_park [OF ih(5)] have "parked (take (n + m) (drop sent data)) ch ch'" by simp
    moreover have "out_of ?c = out_of c" by (simp add: out_of_def)
    ultimately show ?thesis
      using ih loop by (intro exI [of _ "n + m"] exI [of _ c'] exI [of _ ch']) (simp add: add.assoc)
  qed
qed

section \<open>The peer's window\<close>

text \<open>
  A round of \<open>flush_pending\<close> takes the next bytes off the front of what waits, never more than the
  peer's packet limit or window allow, and charges the window exactly.
\<close>

text \<open>Claim C18. Each round of flush_pending takes the next bytes off the front of the pending queue,
  at most the packet limit and the send window of the peer, and charges the window by exactly
  that many without wrapping.\<close>

theorem flush_round_window:
  assumes "flush_round c i = Inr (Some (ch', b, remote))" and "chan c i = Some ch"
  shows "concat (pending_out ch) = b @ concat (pending_out ch') \<and> remote_id ch = Some remote \<and>
    length b \<le> unat (max_remote_packet ch) \<and>
    unat (send_window ch') + length b = unat (send_window ch) \<and> \<not> sent_eof ch"
  using flush_round_takes [OF assms] by simp

section \<open>Strict key exchange\<close>

text \<open>Claim C19. Under strict key exchange, before the first exchange is done, a payload that is
  neither a key-exchange message nor EXT_INFO is refused with an error and changes nothing but
  the packet counters.\<close>

theorem strict_kex_refuses:
  assumes "strict_kex c" and "\<not> first_kex_done c" and "\<not> is_kex_msg t" and "t \<noteq> SSH_MSG_EXT_INFO"
  shows "\<exists>e. accept_payload C n (t # rest) c = (Inl e, c\<lparr>recv_seq := recv_seq c + 1,
    bytes_io := bytes_io c + of_nat n, packets_io := packets_io c + 1\<rparr>) \<and>
    e \<in> {Protocol ''strict kex ignore'', Protocol ''strict kex unexpected''}"
  using assms by (simp add: accept_payload_def bindE_modify withS_def Let_def fail_def)

section \<open>Properties\<close>

text \<open>Claim C3. A payload other than USERAUTH_SUCCESS that turns an unauthenticated connection into an
  authenticated one begins with a password request for the ssh-connection service that names a
  user of the configuration of this server and carries the password of that user, and that user
  is recorded. The constant-time comparison is assumed to decide equality.\<close>

theorem auth_only_by_password:
  assumes law: "ct_law C" and run: "handle_payload C p c = (r, c')" and "\<not> c_authed c" and "c_authed c'"
    and "p ! 0 \<noteq> SSH_MSG_USERAUTH_SUCCESS"
  shows "\<exists>cfg u rest. c_role c = Server \<and> c_server c = Some cfg \<and> u \<in> set (sc_users cfg) \<and>
    p = password_request (u_name u) (u_password u) @ rest \<and> c_user c' = Some (u_name u)"
proof (cases "p = [] \<or> p ! 0 \<noteq> SSH_MSG_USERAUTH_REQUEST")
  case False
  then have "on_userauth_request C p c = (r, c')" using run by (simp add: handle_userauth)
  from userauth_authenticates [OF this assms(3,4)] False obtain cfg user password rest where
    a: "c_role c = Server" "c_server c = Some cfg" "check_password C cfg user password"
      "p = password_request user password @ rest" "c_user c' = Some user" by blast
  from a(3) obtain u where "u \<in> set (sc_users cfg)" "u_name u = user" "u_password u = password"
    by (auto simp: check_password_iff [OF law])
  with a show ?thesis by blast
next
  case True
  have "auth_of c' = auth_of c"
  proof (cases "p = []")
    case True
    with run show ?thesis by (simp add: handle_empty)
  next
    case False
    with True have "p ! 0 \<noteq> SSH_MSG_USERAUTH_REQUEST" by simp
    from ensuresD [OF au.ens_payload_noauth [OF this assms(5)] run] show ?thesis .
  qed
  with assms(3,4) show ?thesis by (simp add: auth_of_def)
qed

lemma grant_auth: "c_authed (snd (grant C user c)) \<and> c_user (snd (grant C user c)) = Some user \<and>
    auth_fails (snd (grant C user c)) = auth_fails c"
proof -
  have "ensures (\<lambda>c c'. auth_of c' = auth_of c)
      (bindE (queue_msg C [SSH_MSG_USERAUTH_SUCCESS] True) (\<lambda>_. push_event (HandshakeComplete user)))"
    by (intro au.ens_bindE au.ens_queue au.ens_event opens_not)
  from ensures_sndD [OF this] show ?thesis by (simp add: bindE_modify auth_of_def)
qed

lemma demo_password:
  "check_password demo_crypto demo_server_cfg (lit ''ann'') (lit ''pw'')"
  "\<not> check_password demo_crypto demo_server_cfg (lit ''ann'') (lit ''no'')"
  by (simp_all add: check_password_def demo_server_cfg_def server_config_new_def demo_crypto_def lit_def)

lemma demo_server_sel [simp]:
  "c_role demo_server = Server" "c_server demo_server = Some demo_server_cfg" "\<not> c_authed demo_server"
  "auth_fails demo_server = 0"
  by (simp_all add: demo_simps)

theorem auth_only_by_password_witness:
  "\<exists>cfg u rest. c_role demo_server = Server \<and> c_server demo_server = Some cfg \<and> u \<in> set (sc_users cfg) \<and>
    password_request (lit ''ann'') (lit ''pw'') = password_request (u_name u) (u_password u) @ rest \<and>
    c_user (snd (handle_payload demo_crypto (password_request (lit ''ann'') (lit ''pw'')) demo_server)) = Some (u_name u)"
proof (rule auth_only_by_password [of demo_crypto "password_request (lit ''ann'') (lit ''pw'')" demo_server
      "fst (handle_payload demo_crypto (password_request (lit ''ann'') (lit ''pw'')) demo_server)"])
  let ?p = "password_request (lit ''ann'') (lit ''pw'')"
  have "handle_payload demo_crypto ?p demo_server = grant demo_crypto (lit ''ann'') demo_server"
    using userauth_run [of demo_server demo_server_cfg "lit ''ann''" "lit ''pw''" demo_crypto] demo_password
    by simp
  then show "c_authed (snd (handle_payload demo_crypto ?p demo_server))"
    using grant_auth [of "lit ''ann''" demo_crypto demo_server] by simp
qed (use demo_crypto_ok in \<open>simp_all add: password_request_eq\<close>)

text \<open>Claim C15. A well-formed password request authenticates its user when the configuration has a
  user with that name and password; otherwise nothing is granted, the failure counter goes up by
  one, and the connection is closed once the counter reaches the limit. The constant-time
  comparison is assumed to decide equality.\<close>

theorem password_request_outcome:
  assumes law: "ct_law C" and "c_role c = Server" and "c_server c = Some cfg"
    and "length user < 2 ^ 32 \<and> utf8_ok user" and "length password < 2 ^ 32 \<and> utf8_ok password"
    and c': "c' = snd (handle_payload C (password_request user password) c)"
  shows "if \<exists>u \<in> set (sc_users cfg). u_name u = user \<and> u_password u = password
    then c_authed c' \<and> c_user c' = Some user \<and> auth_fails c' = auth_fails c
    else c_authed c' = c_authed c \<and> c_user c' = c_user c \<and> auth_fails c' = auth_fails c + 1 \<and>
      (sc_max_auth_fails cfg \<le> auth_fails c + 1 \<longrightarrow> c_closed c')"
proof (cases "check_password C cfg user password")
  case True
  with userauth_run [OF assms(2-5), of C] grant_auth [of user C c] c' show ?thesis
    by (simp add: check_password_iff [OF law])
next
  case False
  let ?c = "c\<lparr>auth_fails := auth_fails c + 1\<rparr>"
  have c': "c' = snd (auth_fail C cfg ?c)"
    using userauth_run [OF assms(2-5), of C] False c' by (simp add: bindE_modify)
  have "auth_of c' = auth_of ?c" unfolding c' by (rule ensures_sndD [OF auth_fail_same])
  moreover have "c_closed c'" if "sc_max_auth_fails cfg \<le> auth_fails c + 1"
    using that calm_np [OF np_queue] unfolding c'
    by (simp add: auth_fail_def withS_def disconnect_def Let_def bindE_def ignore_calm calm_def modify_def ret_def)
  ultimately show ?thesis using False by (simp add: auth_of_def check_password_iff [OF law])
qed

theorem password_request_outcome_witness:
  "c_authed (snd (handle_payload demo_crypto (password_request (lit ''ann'') (lit ''pw'')) demo_server)) \<and>
   \<not> c_authed (snd (handle_payload demo_crypto (password_request (lit ''ann'') (lit ''no'')) demo_server)) \<and>
   auth_fails (snd (handle_payload demo_crypto (password_request (lit ''ann'') (lit ''no'')) demo_server)) = 1"
proof -
  have law: "ct_law demo_crypto" using demo_crypto_ok by simp
  have u: "\<exists>u \<in> set (sc_users demo_server_cfg). u_name u = lit ''ann'' \<and> u_password u = lit ''pw''"
    "\<not> (\<exists>u \<in> set (sc_users demo_server_cfg). u_name u = lit ''ann'' \<and> u_password u = lit ''no'')"
    using demo_password by (simp_all add: check_password_iff [OF law])
  show ?thesis
    using password_request_outcome [OF law, of demo_server demo_server_cfg "lit ''ann''" "lit ''pw''", OF _ _ _ _ refl] u(1)
      password_request_outcome [OF law, of demo_server demo_server_cfg "lit ''ann''" "lit ''no''", OF _ _ _ _ refl] u(2)
    by simp
qed

text \<open>Claim C16. While a key exchange blocks the application, sending data, EOF or CLOSE, consuming
  inbound data, flushing and window adjustment add no byte to the output.\<close>

theorem kex_holds_back:
  assumes "kex_blocks_app c"
    and "c' \<in> {snd (send_data C i data c), snd (send_eof C i c), snd (send_close C i c),
      snd (consume_inbound C i n c), snd (flush_pending C i c), snd (maybe_adjust C i c)}"
  shows "out_stream c' = out_stream c \<and> kex_blocks_app c'"
proof -
  have "held c c'"
    using assms(2) ensures_sndD [OF held_send_data] ensures_sndD [OF held_send_eof]
      ensures_sndD [OF held_send_close] ensures_sndD [OF held_consume_inbound]
      ensures_sndD [OF held_flush] ensures_sndD [OF held_maybe_adjust] by auto
  with assms(1) show ?thesis by (simp add: held_def out_of_def out_stream_def)
qed

theorem kex_holds_back_witness:
  "out_stream (snd (send_data demo_crypto 0 [1, 2] (demo_server\<lparr>kex_blocks_app := True, c_channels := demo_table\<rparr>))) =
   out_stream (demo_server\<lparr>kex_blocks_app := True, c_channels := demo_table\<rparr>)"
  using kex_holds_back [of "demo_server\<lparr>kex_blocks_app := True, c_channels := demo_table\<rparr>"
      "snd (send_data demo_crypto 0 [1, 2] (demo_server\<lparr>kex_blocks_app := True, c_channels := demo_table\<rparr>))"
      demo_crypto 0 "[1, 2]" 0] by simp

text \<open>Claim C17. Data handed in during a key exchange is parked at the end of the pending queue of the
  channel, in order; all of it is accepted unless the 256 KiB limit is reached (or the packet
  limit is zero), and the count returned says how much.\<close>

theorem send_data_parks:
  assumes "kex_blocks_app c" and "chan c i = Some ch"
  shows "\<exists>n c' ch'. send_data C i data c = (Inr n, c') \<and> n \<le> length data \<and> chan c' i = Some ch' \<and>
    parked (take n data) ch ch' \<and> out_of c' = out_of c \<and>
    (n = length data \<or> pending_out_bytes ch' \<ge> 256 * 1024 \<or> c_max_packet c = 0)"
proof (cases "data = []")
  case True
  with assms show ?thesis by (simp add: send_data_def ret_def parked_refl)
next
  case False
  with send_loop_blocked [OF assms, of 0 data C] show ?thesis by (auto simp: send_data_def)
qed

theorem send_data_parks_witness:
  "\<exists>n c' ch'. send_data demo_crypto 0 [5, 6, 7] (demo_server\<lparr>kex_blocks_app := True, c_channels := demo_table\<rparr>)
     = (Inr n, c') \<and> chan c' 0 = Some ch' \<and> parked (take n [5, 6, 7]) demo_channel ch'"
  using send_data_parks [of "demo_server\<lparr>kex_blocks_app := True, c_channels := demo_table\<rparr>" 0 demo_channel
      demo_crypto "[5, 6, 7]"] by auto

theorem flush_round_window_witness:
  "flush_round (demo_server\<lparr>c_channels := demo_table\<lparr>slots := [Some (demo_channel\<lparr>pending_out := [[1, 2]]\<rparr>)]\<rparr>\<rparr>) 0
     = Inr (Some (demo_channel\<lparr>pending_out := [], send_window := 62\<rparr>, [1, 2], 7)) \<and>
   unat (send_window (demo_channel\<lparr>pending_out := [], send_window := 62\<rparr>)) + length [1 :: byte, 2] =
   unat (send_window (demo_channel\<lparr>pending_out := [[1, 2]]\<rparr>))"
proof -
  let ?c = "demo_server\<lparr>c_channels := demo_table\<lparr>slots := [Some (demo_channel\<lparr>pending_out := [[1, 2]]\<rparr>)]\<rparr>\<rparr>"
  have r: "flush_round ?c 0 = Inr (Some (demo_channel\<lparr>pending_out := [], send_window := 62\<rparr>, [1, 2], 7))"
    by (simp add: flush_round_eq ct_look_def demo_channel_def channel_new_def demo_simps Let_def
        queued_write_bytes_def opt_len_def)
  with flush_round_window [OF r, of "demo_channel\<lparr>pending_out := [[1, 2]]\<rparr>"] show ?thesis
    by (simp add: ct_look_def)
qed

theorem strict_kex_refuses_witness:
  "\<exists>e. fst (accept_payload demo_crypto 16 [SSH_MSG_IGNORE] (demo_server\<lparr>strict_kex := True\<rparr>)) = Inl e"
  using strict_kex_refuses [of "demo_server\<lparr>strict_kex := True\<rparr>" SSH_MSG_IGNORE demo_crypto 16 "[]"]
  by (auto simp: is_kex_msg_def demo_simps)

end
