(* ===== verification/Session.thy ===== *)
theory Session
  imports Conn_Panic Conn_Secure "HOL-Library.AList"
begin

text \<open>
  The server session, \<^verbatim>\<open>src/src/server/session.rs\<close>: the poll-driven adapter between the SSH socket, a
  connection and the destination sockets of its channels. The sockets, the clock and the order in
  which a hash map is iterated are not the program's: they are the parameter \<open>net\<close>, a record of
  the answers they give at each call. The state counts the calls, so that successive calls may be
  answered differently, and logs what each socket accepted.
\<close>

section \<open>The environment\<close>

datatype sock = SshSock | DestSock nat

text \<open>Answers of \<open>poll_write\<close>, \<open>poll_read\<close> and of polling a connect future.\<close>

datatype wpoll = WOk nat | WErr io_kind rstr | WPending
datatype rpoll = ROk bytes | RErr io_kind rstr | RPending
datatype cpoll = COk nat | CErr rstr | CPending

record net =
  n_write :: "nat \<Rightarrow> sock \<Rightarrow> bytes \<Rightarrow> wpoll"
  n_read :: "nat \<Rightarrow> sock \<Rightarrow> rpoll"
  n_connect :: "nat \<Rightarrow> rstr \<Rightarrow> 16 word \<Rightarrow> cpoll"
  n_now :: "nat \<Rightarrow> nat"
  n_order :: "nat \<Rightarrow> u32 list \<Rightarrow> u32 list"

section \<open>State\<close>

text \<open>A pending connect future is the address it connects to.\<close>

datatype dest =
    Connecting rstr "16 word" nat
  | Up nat bool bool

record session =
  ss_conn :: conn
  ss_dests :: "(u32 \<times> dest) list"
  ss_cfg :: server_config
  ss_tmp :: nat
  ss_ssh_tmp :: nat
  ss_calls :: nat
  ss_log :: "sock \<Rightarrow> bytes"
  ss_shut :: "sock set"

definition session_new :: "crypto \<Rightarrow> server_config \<Rightarrow> nat \<Rightarrow> session" where
  "session_new C cfg rng =
     \<lparr>ss_conn = conn_server C cfg rng, ss_dests = [], ss_cfg = cfg,
      ss_tmp = max (unat (sc_max_packet cfg)) 16384, ss_ssh_tmp = 64 * 1024, ss_calls = 0,
      ss_log = (\<lambda>_. []), ss_shut = {}\<rparr>"

text \<open>A call on the connection, and the calls on the environment.\<close>

definition on_conn :: "(conn, 'a) act \<Rightarrow> (session, 'a) act" where
  "on_conn m s = (case m (ss_conn s) of (r, c) \<Rightarrow> (r, s\<lparr>ss_conn := c\<rparr>))"

definition tick :: "(nat \<Rightarrow> 'a) \<Rightarrow> (session, 'a) act" where
  "tick f s = (Inr (f (ss_calls s)), s\<lparr>ss_calls := ss_calls s + 1\<rparr>)"

text \<open>A write logs the part of the chunk that the socket took.\<close>

definition sock_write :: "net \<Rightarrow> sock \<Rightarrow> bytes \<Rightarrow> (session, wpoll) act" where
  "sock_write N k chunk =
     bindE (tick (\<lambda>t. n_write N t k chunk)) (\<lambda>w.
     bindE (modify (\<lambda>s. case w of
              WOk n \<Rightarrow> s\<lparr>ss_log := (ss_log s)(k := ss_log s k @ take n chunk)\<rparr>
            | _ \<Rightarrow> s)) (\<lambda>_.
     ret w))"

text \<open>A read fills at most the buffer it is given.\<close>

definition sock_read :: "net \<Rightarrow> sock \<Rightarrow> nat \<Rightarrow> (session, rpoll) act" where
  "sock_read N k nmax =
     bindE (tick (\<lambda>t. n_read N t k)) (\<lambda>r.
     ret (case r of ROk d \<Rightarrow> ROk (take nmax d) | x \<Rightarrow> x))"

abbreviation dest_of :: "session \<Rightarrow> u32 \<Rightarrow> dest option" where
  "dest_of s i \<equiv> map_of (ss_dests s) i"

definition dest_remove :: "u32 \<Rightarrow> (session, unit) act" where
  "dest_remove i = modify (\<lambda>s. s\<lparr>ss_dests := AList.delete i (ss_dests s)\<rparr>)"

definition dest_insert :: "u32 \<Rightarrow> dest \<Rightarrow> (session, unit) act" where
  "dest_insert i d = modify (\<lambda>s. s\<lparr>ss_dests := AList.update i d (ss_dests s)\<rparr>)"

text \<open>\<open>if let Some(Dest::Up \<dots>) = self.dests.get_mut(&id)\<close> and an assignment through the reference.\<close>

definition set_write_shutdown :: "u32 \<Rightarrow> (session, unit) act" where
  "set_write_shutdown i = withS (\<lambda>s.
     case dest_of s i of Some (Up k ws re) \<Rightarrow> dest_insert i (Up k True re) | _ \<Rightarrow> ret ())"

section \<open>Events\<close>

definition start_connect :: "net \<Rightarrow> u32 \<Rightarrow> rstr \<Rightarrow> 16 word \<Rightarrow> (session, unit) act" where
  "start_connect N i host port = withS (\<lambda>s.
     bindE (tick (n_now N)) (\<lambda>now.
     dest_insert i (Connecting host port (now + sc_connect_timeout (ss_cfg s)))))"

definition handle_event :: "crypto \<Rightarrow> net \<Rightarrow> event \<Rightarrow> (session, unit) act" where
  "handle_event C N ev =
     (case ev of
        HandshakeComplete user \<Rightarrow> ret ()
      | OpenSession i \<Rightarrow> on_conn (confirm_open C i)
      | OpenDirectTcpIp i host port \<Rightarrow> start_connect N i host (ucast port)
      | ChannelEof i \<Rightarrow> set_write_shutdown i
      | ChannelClose i \<Rightarrow> dest_remove i
      | _ \<Rightarrow> ret ())"

text \<open>No event handler adds an event, so the loop of \<open>handle_events\<close> ends with the queue.\<close>

lemma events_table [simp]: "c_events (snd (on_table m c)) = c_events c"
  by (simp add: on_table_def split: prod.splits)

lemma events_queue [simp]: "c_events (snd (queue_msg C p prio c)) = c_events c"
  using queue_msg_snd [of C p prio c] by (auto simp: sealed_def)

lemma events_bindE:
  "c_events (snd (m c)) = c_events c \<Longrightarrow> (\<And>x t. c_events (snd (f x t)) = c_events t) \<Longrightarrow>
   c_events (snd (bindE m f c)) = c_events c"
  by (auto simp: bindE_def split: prod.splits sum.splits)

lemma events_confirm_open: "c_events (snd (confirm_open C i c)) = c_events c"
  unfolding confirm_open_def withS_def by (intro events_bindE) (simp_all add: tryR_def)

lemma handle_event_events: "c_events (ss_conn (snd (handle_event C N ev s))) = c_events (ss_conn s)"
  using events_confirm_open
  by (auto simp: handle_event_def on_conn_def start_connect_def set_write_shutdown_def dest_insert_def
      dest_remove_def tick_def ret_def modify_def withS_def bindE_def
      split: event.splits prod.splits option.splits dest.splits) (metis snd_conv)

function handle_events :: "crypto \<Rightarrow> net \<Rightarrow> (session, unit) act" where
  "handle_events C N s =
     (case c_events (ss_conn s) of
        [] \<Rightarrow> (Inr (), s)
      | ev # es \<Rightarrow>
          (case handle_event C N ev (s\<lparr>ss_conn := snd (pop_event (ss_conn s))\<rparr>) of
             (Inl e, s') \<Rightarrow> (Inl e, s')
           | (Inr _, s') \<Rightarrow> handle_events C N s'))"
  by pat_completeness auto
termination
proof (relation "measure (\<lambda>(C, N, s). length (c_events (ss_conn s)))", goal_cases)
  case 1
  then show ?case by simp
next
  case (2 C N s ev es x s' u)
  then have "snd (handle_event C N ev (s\<lparr>ss_conn := snd (pop_event (ss_conn s))\<rparr>)) = s'" by (metis snd_conv)
  then have "c_events (ss_conn s') = c_events (snd (pop_event (ss_conn s)))"
    using handle_event_events [of C N ev "s\<lparr>ss_conn := snd (pop_event (ss_conn s))\<rparr>"] by simp
  with 2(1) show ?case by (simp add: pop_event_def)
qed

declare handle_events.simps [simp del]

section \<open>The SSH socket\<close>

text \<open>
  The loop of \<open>poll_ssh_write\<close> ends because each write takes at least one byte off the output, which
  can grow only once, when the identification has been written and the key exchange starts.
\<close>

lemma pull_length: "length (out_stream (pull_current_out c)) \<le> length (out_stream c)"
  by (auto simp: pull_current_out_def out_stream_def nonempty_def Let_def split: list.splits option.splits)

lemma pull_sent [simp]: "sent_kexinit (pull_current_out c) = sent_kexinit c"
  by (simp add: pull_current_out_def Let_def split: list.splits)

lemma pull_again: "nonempty (current_out c) \<Longrightarrow> pull_current_out c = c"
  by (cases "current_out c") (auto simp: pull_current_out_def nonempty_def Let_def)

lemma take_front_length:
  "current_out c = Some b \<Longrightarrow> b \<noteq> [] \<Longrightarrow> 0 < n \<Longrightarrow> length (out_stream (take_front n b c)) < length (out_stream c)"
  by (auto simp: take_front_def out_stream_def Let_def min_def)

lemma take_front_sent [simp]: "sent_kexinit (take_front n b c) = sent_kexinit c"
  by (simp add: take_front_def Let_def)

lemma start_kex_out:
  "sent_kexinit (snd (start_kex C c)) \<or> out_stream (snd (start_kex C c)) = out_stream c \<and>
     sent_kexinit (snd (start_kex C c)) = sent_kexinit c"
proof -
  let ?c = "c\<lparr>c_rng := c_rng c + 16\<rparr>"
  let ?our = "kexinit_build (map (os_rng C) [c_rng c..<c_rng c + 16])
    (case c_role c of Server \<Rightarrow> SERVER_KEX | Client \<Rightarrow> CLIENT_KEX) SERVER_HOST_KEY SERVER_CIPHERS SERVER_MACS"
  obtain r d where q: "queue_msg C (raw ?our) True ?c = (r, d)" by fastforce
  then show ?thesis
  proof (cases rule: queue_msg_cases)
    case (err e rng)
    with q show ?thesis
      by (simp add: start_kex_def bindE_def rng_fill_def withS_def Let_def out_stream_def)
  next
    case (ok pkt keys rng)
    with q show ?thesis
      by (auto simp: start_kex_def bindE_def rng_fill_def withS_def modify_def Let_def ret_def)
  qed
qed

lemma consume_out_shrinks:
  assumes "peek_out c = (Some b, d)" and "0 < n"
  shows "sent_kexinit (consume_out C n d) \<and> \<not> sent_kexinit c \<or>
    sent_kexinit (consume_out C n d) = sent_kexinit c \<and>
    length (out_stream (consume_out C n d)) < length (out_stream c)"
proof -
  have d: "d = pull_current_out c" "current_out d = Some b" "b \<noteq> []"
    using assms(1) by (auto simp: peek_out_def Let_def nonempty_def split: if_splits option.splits)
  then have "pull_current_out d = d" by (intro pull_again) (simp add: nonempty_def)
  let ?t = "take_front n b d"
  have t: "length (out_stream ?t) < length (out_stream c)" "sent_kexinit ?t = sent_kexinit c"
    using take_front_length [OF d(2,3) assms(2)] pull_length [of c] d(1) by simp_all
  have "consume_out C n d = ?t \<or> consume_out C n d = maybe_start_kex C ?t"
    using assms(2) d(2) \<open>pull_current_out d = d\<close> by (auto simp: consume_out_eq Let_def)
  with t start_kex_out [of C ?t] show ?thesis by (auto simp: maybe_start_kex_def split: if_splits)
qed

lemma sock_write_conn: "sock_write N k chunk s = (r, s1) \<Longrightarrow> ss_conn s1 = ss_conn s"
  by (auto simp: sock_write_def tick_def bindE_def modify_def ret_def split: wpoll.splits)

function ssh_write_loop :: "crypto \<Rightarrow> net \<Rightarrow> bool \<Rightarrow> (session, bool) act" where
  "ssh_write_loop C N progress s =
     (case peek_out (ss_conn s) of
        (None, c) \<Rightarrow> (Inr progress, s\<lparr>ss_conn := c\<rparr>)
      | (Some chunk, c) \<Rightarrow>
          (case sock_write N SshSock chunk (s\<lparr>ss_conn := c\<rparr>) of
             (Inl e, s1) \<Rightarrow> (Inl e, s1)
           | (Inr w, s1) \<Rightarrow>
               (case w of
                  WOk n \<Rightarrow>
                    if n = 0 then (Inl Closed, s1)
                    else ssh_write_loop C N True (s1\<lparr>ss_conn := consume_out C n (ss_conn s1)\<rparr>)
                | WErr kind msg \<Rightarrow>
                    if kind = WouldBlock then (Inr progress, s1) else (Inl (Io kind msg), s1)
                | WPending \<Rightarrow> (Inr progress, s1))))"
  by pat_completeness auto
termination
proof (relation "measures [\<lambda>(C, N, p, s). if sent_kexinit (ss_conn s) then 0 else 1,
    \<lambda>(C, N, p, s). length (out_stream (ss_conn s))]", goal_cases)
  case 1
  then show ?case by simp
next
  case (2 C N progress s x c chunk w s1 r n)
  then have "ss_conn s1 = c" by (metis (no_types, lifting) sock_write_conn select_convs(1) surjective update_convs(1))
  moreover have "peek_out (ss_conn s) = (Some chunk, c)" "0 < n" using 2 by simp_all
  ultimately show ?case using consume_out_shrinks [of "ss_conn s" chunk c n C] by auto
qed

declare ssh_write_loop.simps [simp del]

definition poll_ssh_write :: "crypto \<Rightarrow> net \<Rightarrow> (session, bool) act" where
  "poll_ssh_write C N = ssh_write_loop C N False"

text \<open>\<open>Poll::Pending\<close> is \<open>None\<close>.\<close>

definition poll_ssh_read :: "crypto \<Rightarrow> net \<Rightarrow> (session, bool option) act" where
  "poll_ssh_read C N = withS (\<lambda>s.
     bindE (sock_read N SshSock (ss_ssh_tmp s)) (\<lambda>r.
     case r of
       ROk d \<Rightarrow>
         if d = [] then
           bindE (on_conn (disconnect C SSH_DISCONNECT_BY_APPLICATION (lit ''connection lost''))) (\<lambda>_.
           ret (Some True))
         else
           bindE (on_conn (modify (\<lambda>c. c\<lparr>read_buf := read_buf c @ d\<rparr>))) (\<lambda>_.
           bindE (on_conn (process_in C)) (\<lambda>_.
           ret (Some True)))
     | RErr kind msg \<Rightarrow> if kind = WouldBlock then ret None else fail (Io kind msg)
     | RPending \<Rightarrow> ret None))"

section \<open>Connecting to destinations\<close>

text \<open>The first loop of \<open>poll_connects\<close>: the connects that finished and those that are overdue.\<close>

primrec scan_connects :: "net \<Rightarrow> u32 list \<Rightarrow> (session, (u32 \<times> cpoll) list \<times> u32 list) act" where
  "scan_connects N [] = ret ([], [])"
| "scan_connects N (i # is) = withS (\<lambda>s.
     case dest_of s i of
       Some (Connecting host port deadline) \<Rightarrow>
         bindE (tick (n_now N)) (\<lambda>now.
         if now > deadline then
           bindE (scan_connects N is) (\<lambda>(fin, late). ret (fin, i # late))
         else
           bindE (tick (\<lambda>t. n_connect N t host port)) (\<lambda>r.
           bindE (scan_connects N is) (\<lambda>(fin, late).
           ret (if r = CPending then fin else (i, r) # fin, late))))
     | _ \<Rightarrow> scan_connects N is)"

definition finish_connect :: "crypto \<Rightarrow> u32 \<times> cpoll \<Rightarrow> (session, unit) act" where
  "finish_connect C = (\<lambda>(i, r).
     bindE (dest_remove i) (\<lambda>_.
     case r of
       COk k \<Rightarrow> bindE (on_conn (confirm_open C i)) (\<lambda>_. dest_insert i (Up k False False))
     | CErr msg \<Rightarrow> on_conn (fail_open C i SSH_OPEN_CONNECT_FAILED msg)
     | CPending \<Rightarrow> ret ()))"

definition poll_connects :: "crypto \<Rightarrow> net \<Rightarrow> (session, bool) act" where
  "poll_connects C N = withS (\<lambda>s.
     bindE (tick (\<lambda>t. n_order N t (map fst (ss_dests s)))) (\<lambda>ids.
     bindE (scan_connects N ids) (\<lambda>(fin, late).
     bindE (for_each late (\<lambda>i.
       bindE (dest_remove i) (\<lambda>_.
       on_conn (fail_open C i SSH_OPEN_CONNECT_FAILED (lit ''timeout''))))) (\<lambda>_.
     bindE (for_each fin (finish_connect C)) (\<lambda>_.
     ret (late \<noteq> [] \<or> fin \<noteq> []))))))"

section \<open>One destination\<close>

text \<open>The inbound queue of a channel as the session sees it, and how far \<open>consume_inbound\<close> gets.\<close>

definition inbound :: "conn \<Rightarrow> u32 \<Rightarrow> bytes list" where
  "inbound c i = (case chan c i of None \<Rightarrow> [] | Some ch \<Rightarrow> in_q ch)"

lemma peek_inbound_inbound: "peek_inbound c i = (case inbound c i of [] \<Rightarrow> None | b # _ \<Rightarrow> Some b)"
  by (simp add: peek_inbound_def inbound_def split: option.splits list.splits)

lemma channels_queue [simp]: "c_channels (snd (queue_msg C p prio c)) = c_channels c"
  using queue_msg_snd [of C p prio c] by (auto simp: sealed_def)

lemma inbound_update:
  "chan c i = Some ch \<Longrightarrow> inbound (snd (on_table (ct_update i f) c)) i = in_q (f ch)"
  by (auto simp: inbound_def on_table_def ct_update_def ct_look_def split: if_splits)

lemma inbound_cong: "c_channels c = c_channels d \<Longrightarrow> inbound c i = inbound d i"
  by (simp add: inbound_def)

lemma inbound_adjust: "inbound (snd (maybe_adjust C i c)) i = inbound c i"
proof (cases "kex_blocks_app c \<or> chan c i = None")
  case True
  then show ?thesis by (auto simp: maybe_adjust_def withS_def ret_def)
next
  case False
  then obtain ch where ch: "chan c i = Some ch" by blast
  have "inbound (snd (on_table (ct_update i (\<lambda>ch. ch\<lparr>recv_window := recv_window ch + add\<rparr>)) c)) i = in_q ch" for add
    using inbound_update [OF ch, of "\<lambda>ch. ch\<lparr>recv_window := recv_window ch + add\<rparr>"] by simp
  moreover have "inbound c i = in_q ch" by (simp add: inbound_def ch)
  moreover have "inbound (snd (queue_msg C p prio d)) i = inbound d i" for p prio d by (rule inbound_cong) simp
  ultimately show ?thesis
    using False ch
    by (auto simp: maybe_adjust_def withS_def Let_def bindE_def ignore_eq ret_def split: option.splits)
qed

lemma maybe_adjust_ok: "fst (maybe_adjust C i c) = Inr ()"
proof -
  have "fst (queue_msg C p prio d) \<noteq> Inl Panic" "fst (on_table (ct_update i f) d) \<noteq> Inl Panic" for p prio d f
    using np_queue np_update by (simp_all add: never_panics_def)
  then show ?thesis
    by (simp add: maybe_adjust_def withS_def Let_def bindE_def ignore_calm ret_def split: option.splits)
qed

lemma consume_inbound_ok: "fst (consume_inbound C i n c) = Inr ()"
proof (cases "chan c i")
  case (Some ch)
  then have "on_table (ct_update i f) c = (Inr (), snd (on_table (ct_update i f) c))" for f
    by (simp add: on_table_def ct_update_def)
  then have "bindE (on_table (ct_update i f)) g c = g () (snd (on_table (ct_update i f) c))"
    for f and g :: "unit \<Rightarrow> (conn, unit) act"
    by (rule bindE_ok)
  with Some show ?thesis by (simp add: consume_inbound_def withS_def update_take_inbound maybe_adjust_ok ret_def)
qed (simp add: consume_inbound_def withS_def ret_def)

lemma inbound_consume:
  assumes "inbound c i = b # q"
  shows "inbound (snd (consume_inbound C i n c)) i =
    (if length b \<le> n then q else drop n b # q)"
proof -
  obtain ch where ch: "chan c i = Some ch" "in_q ch = b # q"
    using assms by (auto simp: inbound_def split: option.splits)
  have "inbound (snd (consume_inbound C i n c)) i = inbound (snd (on_table (ct_update_act i (take_inbound n)) c)) i"
    using ch by (simp add: consume_inbound_def withS_def bindE_def inbound_adjust split: prod.splits sum.splits)
  also have "\<dots> = in_q (snd (take_inbound n ch))"
    unfolding update_take_inbound by (rule inbound_update [OF ch(1)])
  also have "\<dots> = (if length b \<le> n then q else drop n b # q)"
    using ch(2) by (simp add: take_inbound_eq Let_def min_def)
  finally show ?thesis .
qed

text \<open>The loop that moves inbound data to the destination: progress, and whether \<open>poll_dest_one\<close> returns.\<close>

function inbound_loop :: "crypto \<Rightarrow> net \<Rightarrow> u32 \<Rightarrow> bool \<Rightarrow> (session, bool \<times> bool) act" where
  "inbound_loop C N i progress s =
     (case peek_inbound (ss_conn s) i of
        None \<Rightarrow> (Inr (progress, False), s)
      | Some chunk \<Rightarrow>
          (case dest_of s i of
             Some (Up k ws re) \<Rightarrow>
               (case sock_write N (DestSock k) chunk s of
                  (Inl e, s1) \<Rightarrow> (Inl e, s1)
                | (Inr w, s1) \<Rightarrow>
                    (case w of
                       WOk n \<Rightarrow>
                         if n = 0 then (Inr (progress, False), snd (set_write_shutdown i s1))
                         else
                           (case on_conn (consume_inbound C i n) s1 of
                              (Inl e, s2) \<Rightarrow> (Inl e, s2)
                            | (Inr _, s2) \<Rightarrow> inbound_loop C N i True s2)
                     | WErr kind msg \<Rightarrow>
                         if kind = WouldBlock then (Inr (progress, False), s1)
                         else
                           bindE (on_conn (ignore (send_eof C i))) (\<lambda>_.
                           bindE (on_conn (ignore (send_close C i))) (\<lambda>_.
                           bindE (dest_remove i) (\<lambda>_.
                           ret (True, True)))) s1
                     | WPending \<Rightarrow> (Inr (progress, False), s1)))
           | _ \<Rightarrow> (Inr (progress, False), s)))"
  by pat_completeness auto
termination
proof (relation "measure (\<lambda>(C, N, i, p, s). sum_list (map (Suc \<circ> length) (inbound (ss_conn s) i)))", goal_cases)
  case 1
  then show ?case by simp
next
  case (2 C N i progress s chunk d k ws re x s1 w n y s2 u)
  have c: "ss_conn s1 = ss_conn s" using 2 sock_write_conn by metis
  obtain q where q: "inbound (ss_conn s) i = chunk # q"
    using 2(1) by (auto simp: peek_inbound_inbound split: list.splits)
  have "0 < n" using 2 by simp
  moreover have "ss_conn s2 = snd (consume_inbound C i n (ss_conn s1))"
    using 2(8) by (auto simp: on_conn_def split: prod.splits)
  ultimately show ?case using inbound_consume [OF q, of C n] c q by auto
qed

declare inbound_loop.simps [simp del]

text \<open>\<open>consume_inbound\<close> returns, so that a round goes on with the channel it leaves.\<close>

lemma consumed: "on_conn (consume_inbound C i n) s = (Inr (), s\<lparr>ss_conn := snd (consume_inbound C i n (ss_conn s))\<rparr>)"
  by (simp add: on_conn_def split_def consume_inbound_ok)

lemmas inbound_loop_eq = inbound_loop.simps [unfolded consumed prod.case sum.case]

lemma inbound_loop_induct [case_names step]:
  assumes step: "\<And>C N i p s. (\<And>chunk k ws re s1 n. \<lbrakk>peek_inbound (ss_conn s) i = Some chunk;
      dest_of s i = Some (Up k ws re); sock_write N (DestSock k) chunk s = (Inr (WOk n), s1); n \<noteq> 0\<rbrakk> \<Longrightarrow>
      P C N i True (s1\<lparr>ss_conn := snd (consume_inbound C i n (ss_conn s1))\<rparr>)) \<Longrightarrow> P C N i p s"
  shows "P C N i p s"
proof (induction C N i p s rule: inbound_loop.induct)
  case (1 C N i p s)
  show ?case
  proof (rule step)
    fix chunk k ws re s1 n
    assume a: "peek_inbound (ss_conn s) i = Some chunk" "dest_of s i = Some (Up k ws re)"
      "sock_write N (DestSock k) chunk s = (Inr (WOk n), s1)" "n \<noteq> 0"
    show "P C N i True (s1\<lparr>ss_conn := snd (consume_inbound C i n (ss_conn s1))\<rparr>)"
      using 1 [OF a(1,2) refl a(3) [symmetric] refl refl a(4) consumed [symmetric] refl] .
  qed
qed

definition read_dest :: "crypto \<Rightarrow> net \<Rightarrow> u32 \<Rightarrow> (session, bool \<times> bool) act" where
  "read_dest C N i = withS (\<lambda>s.
     let allow = conn_outbound_allowance (ss_conn s) i in
     case dest_of s i of
       Some (Up k ws re) \<Rightarrow>
         if allow > 0 \<and> \<not> re then
           bindE (sock_read N (DestSock k) (min allow (ss_tmp s))) (\<lambda>r.
           case r of
             ROk d \<Rightarrow>
               if d = [] then
                 bindE (dest_insert i (Up k ws True)) (\<lambda>_.
                 bindE (on_conn (send_eof C i)) (\<lambda>_.
                 ret (True, False)))
               else
                 bindE (on_conn (send_data C i d)) (\<lambda>_.
                 ret (True, False))
           | RErr kind msg \<Rightarrow>
               if kind = WouldBlock then ret (False, False)
               else
                 bindE (on_conn (send_eof C i)) (\<lambda>_.
                 bindE (on_conn (send_close C i)) (\<lambda>_.
                 bindE (dest_remove i) (\<lambda>_.
                 ret (True, True))))
           | RPending \<Rightarrow> ret (False, False))
         else ret (False, False)
     | _ \<Rightarrow> ret (False, False))"

definition settle_dest :: "crypto \<Rightarrow> u32 \<Rightarrow> (session, bool) act" where
  "settle_dest C i = withS (\<lambda>s.
     case dest_of s i of
       Some (Up k ws re) \<Rightarrow>
         let inbound_empty = (case peek_inbound (ss_conn s) i of None \<Rightarrow> True | Some d \<Rightarrow> d = []);
             finished = re \<and> (ws \<or> channel_got_eof (ss_conn s) i)
         in
           bindE (if ws \<and> inbound_empty
                  then modify (\<lambda>s. s\<lparr>ss_shut := insert (DestSock k) (ss_shut s)\<rparr>) else ret ()) (\<lambda>_.
           if finished \<and> inbound_empty then
             bindE (on_conn (send_close C i)) (\<lambda>_.
             bindE (dest_remove i) (\<lambda>_.
             ret True))
           else ret False)
     | _ \<Rightarrow> ret False)"

definition poll_dest_one :: "crypto \<Rightarrow> net \<Rightarrow> u32 \<Rightarrow> (session, bool) act" where
  "poll_dest_one C N i =
     bindE (inbound_loop C N i False) (\<lambda>(p1, stop).
     if stop then ret p1
     else
       bindE (read_dest C N i) (\<lambda>(p2, stop).
       if stop then ret True
       else bindE (settle_dest C i) (\<lambda>p3. ret (p1 \<or> p2 \<or> p3))))"

text \<open>The loop of \<open>poll_dests\<close> over the ids taken in round-robin order.\<close>

primrec poll_each :: "crypto \<Rightarrow> net \<Rightarrow> u32 list \<Rightarrow> bool \<Rightarrow> (session, bool) act" where
  "poll_each C N [] progress = ret progress"
| "poll_each C N (i # is) progress = withS (\<lambda>s.
     if \<not> channel_alive (ss_conn s) i then bindE (dest_remove i) (\<lambda>_. poll_each C N is progress)
     else if conn_channel_kind (ss_conn s) i = Some Session then poll_each C N is progress
     else bindE (poll_dest_one C N i) (\<lambda>p. poll_each C N is (progress \<or> p)))"

definition poll_dests :: "crypto \<Rightarrow> net \<Rightarrow> (session, bool) act" where
  "poll_dests C N =
     bindE (on_conn (\<lambda>c. case round_robin_ids c of (ids, c') \<Rightarrow> (Inr ids, c'))) (\<lambda>ids.
     poll_each C N ids False)"

section \<open>Polling the session\<close>

datatype poll_out = Ready | PollPending | Again

text \<open>One turn of the loop of \<open>Future::poll\<close>.\<close>

definition session_turn :: "crypto \<Rightarrow> net \<Rightarrow> (session, poll_out) act" where
  "session_turn C N =
     bindE (poll_ssh_write C N) (\<lambda>p1.
     bindE (poll_ssh_read C N) (\<lambda>p2.
     bindE (poll_ssh_write C N) (\<lambda>p3.
     bindE (handle_events C N) (\<lambda>_.
     bindE (poll_connects C N) (\<lambda>p4.
     bindE (poll_dests C N) (\<lambda>p5.
     bindE (handle_events C N) (\<lambda>_.
     bindE (poll_ssh_write C N) (\<lambda>p6.
     withS (\<lambda>s.
       if is_finished (ss_conn s) then ret Ready
       else if is_closed (ss_conn s) \<and> \<not> wants_write (ss_conn s) then ret Ready
       else if \<not> (p1 \<or> p2 = Some True \<or> p3 \<or> p4 \<or> p5 \<or> p6) then ret PollPending
       else ret Again)))))))))"

text \<open>
  The loop itself may go on as long as the environment makes progress: with fuel for \<open>n\<close> turns the
  value is \<open>None\<close> when it is still running after them.
\<close>

primrec session_poll :: "nat \<Rightarrow> crypto \<Rightarrow> net \<Rightarrow> session \<Rightarrow> (poll_out result \<times> session) option" where
  "session_poll 0 C N s = None"
| "session_poll (Suc n) C N s =
     (case session_turn C N s of
        (Inr Again, s') \<Rightarrow> session_poll n C N s'
      | (r, s') \<Rightarrow> Some (r, s'))"

section \<open>The connection stays reachable, nothing panics and nothing opens early\<close>

text \<open>
  The connection of a session is reachable, and before authentication the session has no
  destination. With the flag set, authentication is required: this is the form in which the
  operations on destinations keep it.
\<close>

definition live :: "bool \<Rightarrow> crypto \<Rightarrow> session \<Rightarrow> bool" where
  "live A C s \<longleftrightarrow> conn_reach C (ss_conn s) \<and> (c_authed (ss_conn s) \<or> \<not> A \<and> ss_dests s = [])"

lemma live_reach: "live A C s \<Longrightarrow> conn_reach C (ss_conn s)"
  by (simp add: live_def)

lemma live_step: "live A C s \<Longrightarrow> conn_step C (ss_conn s) c \<Longrightarrow> live A C (s\<lparr>ss_conn := c\<rparr>)"
  using la.at_call [of C "ss_conn s" c] reach_step [of C "ss_conn s" c] by (auto simp: live_def lasting_def)

lemma safe_on_conn:
  assumes "\<And>c. conn_step C c (snd (m c))" and "\<And>c. conn_reach C c \<Longrightarrow> calm c m"
  shows "safely (live A C) (on_conn m)"
proof (rule safely_gen)
  fix s r t
  assume s: "live A C s" and run: "on_conn m s = (r, t)"
  obtain q c where m: "m (ss_conn s) = (q, c)" by fastforce
  then have "live A C (s\<lparr>ss_conn := c\<rparr>)" using live_step [OF s assms(1)] by simp
  moreover have "q \<noteq> Inl Panic" using assms(2) [OF live_reach [OF s]] m by (simp add: calm_def)
  ultimately show "live A C t \<and> r \<noteq> Inl Panic" using run m by (auto simp: on_conn_def)
qed

lemma safe_conn_calls [safe_intro]:
  "safely (live A C) (on_conn (confirm_open C i))" "safely (live A C) (on_conn (fail_open C i r msg))"
  "safely (live A C) (on_conn (send_data C i data))" "safely (live A C) (on_conn (send_eof C i))"
  "safely (live A C) (on_conn (send_close C i))" "safely (live A C) (on_conn (process_in C))"
  "safely (live A C) (on_conn (disconnect C r msg))"
  by (intro safe_on_conn conn_step.intros calm_np np_intro calm_process_in reach_inv; assumption)+

lemma safe_conn_ignored [safe_intro]:
  "safely (live A C) (on_conn (ignore (send_eof C i)))" "safely (live A C) (on_conn (ignore (send_close C i)))"
  using step_eof [of C _ i] step_send_close [of C _ i]
  by (intro safe_on_conn calm_np np_intro; simp)+

lemma safe_feed [safe_intro]: "safely (live A C) (on_conn (modify (\<lambda>c. c\<lparr>read_buf := read_buf c @ d\<rparr>)))"
  by (intro safe_on_conn calm_np np_intro) (simp add: modify_def step_feed)

lemma safe_rr [safe_intro]:
  "safely (live A C) (on_conn (\<lambda>c. case round_robin_ids c of (ids, c') \<Rightarrow> (Inr ids, c')))"
proof (rule safe_on_conn)
  show "conn_step C c (snd (case round_robin_ids c of (ids, c') \<Rightarrow> (Inr ids, c')))" for c
    using step_rr [of C c] by (simp add: split_def)
qed (simp add: calm_def split_def)

lemma safe_tick [safe_intro]: "safely (live A C) (tick f)"
  by (simp add: safely_def tick_def live_def)

lemma safe_remove [safe_intro]: "safely (live A C) (dest_remove i)"
  unfolding dest_remove_def by (intro safe_modify) (auto simp: live_def)

lemma safe_insert [safe_intro]: "safely (live True C) (dest_insert i d)"
  unfolding dest_insert_def by (intro safe_modify) (simp add: live_def)

text \<open>What is safe once authenticated, and does nothing without destinations, is safe.\<close>

lemma safe_lift:
  assumes "safely (live True C) m"
    and "\<And>s r t. ss_dests s = [] \<Longrightarrow> m s = (r, t) \<Longrightarrow> r \<noteq> Inl Panic \<and> ss_dests t = [] \<and> ss_conn t = ss_conn s"
  shows "safely (live A C) m"
proof (rule safely_gen)
  fix s r t
  assume s: "live A C s" and run: "m s = (r, t)"
  show "live A C t \<and> r \<noteq> Inl Panic"
  proof (cases "c_authed (ss_conn s)")
    case True
    with s have "live True C s" by (simp add: live_def)
    from safelyD [OF assms(1) this run] show ?thesis by (simp add: live_def)
  next
    case False
    with s have "ss_dests s = []" by (simp add: live_def)
    from assms(2) [OF this run] s False show ?thesis by (simp add: live_def)
  qed
qed

lemma safe_dest_case [safe_intro]:
  "(\<And>h p t. safely I (f h p t)) \<Longrightarrow> (\<And>k ws re. safely I (g k ws re)) \<Longrightarrow>
   safely I (case d of Connecting h p t \<Rightarrow> f h p t | Up k ws re \<Rightarrow> g k ws re)"
  by (cases d) simp_all

lemma safe_shutdown [safe_intro]: "safely (live A C) (set_write_shutdown i)"
proof (rule safe_lift)
  show "safely (live True C) (set_write_shutdown i)" unfolding set_write_shutdown_def by (intro safe_intro)
qed (auto simp: set_write_shutdown_def withS_def ret_def)

lemma safe_sock [safe_intro]: "safely (live A C) (sock_write N k chunk)" "safely (live A C) (sock_read N k n)"
  unfolding sock_write_def sock_read_def by (intro safe_intro safe_modify; simp add: live_def split: wpoll.splits)+

text \<open>An event that opens a channel stands in the queue of an authenticated connection only.\<close>

lemma safe_handle_event: "\<not> opens ev \<or> A \<Longrightarrow> safely (live A C) (handle_event C N ev)"
  unfolding handle_event_def start_connect_def by (cases ev) (auto intro!: safe_intro)

lemma handle_event_live:
  assumes "live A C s" and "gate (ss_conn s)" and "c_events (ss_conn s) = ev # es"
    and "handle_event C N ev (s\<lparr>ss_conn := snd (pop_event (ss_conn s))\<rparr>) = (q, u)"
  shows "live A C u \<and> q \<noteq> Inl Panic"
proof -
  have pop: "live B C (s\<lparr>ss_conn := snd (pop_event (ss_conn s))\<rparr>)" if "live B C s" for B
    using live_step [OF that step_pop] .
  show ?thesis
  proof (cases "opens ev")
    case True
    with assms(1-3) have "live True C s" by (auto simp: gate_def live_def)
    from safelyD [OF safe_handle_event pop [OF this] assms(4)] show ?thesis by (auto simp: live_def)
  next
    case False
    then show ?thesis using safelyD [OF safe_handle_event pop [OF assms(1)] assms(4)] by blast
  qed
qed

lemma safe_handle_events [safe_intro]: "safely (live A C) (handle_events C N)"
proof -
  have "live A C t \<and> r \<noteq> Inl Panic" if "live A C s" "handle_events C N s = (r, t)" for s r t
    using that
  proof (induction C N s rule: handle_events.induct)
    case (1 C N s)
    show ?case
    proof (cases "c_events (ss_conn s)")
      case Nil
      with 1(2,3) show ?thesis by (auto simp: handle_events.simps [of C N s])
    next
      case (Cons ev es)
      let ?s = "s\<lparr>ss_conn := snd (pop_event (ss_conn s))\<rparr>"
      obtain q u where q: "handle_event C N ev ?s = (q, u)" by fastforce
      have "live A C u" "q \<noteq> Inl Panic"
        using handle_event_live [OF 1(2) reach_gate [OF live_reach [OF 1(2)]] Cons q] by simp_all
      with 1(1) [OF Cons q [symmetric]] 1(3) Cons q show ?thesis
        by (auto simp: handle_events.simps [of C N s] split: sum.splits)
    qed
  qed
  then show ?thesis by (rule safely_gen)
qed

lemma safe_ssh_write_loop: "live A C s \<Longrightarrow> ssh_write_loop C N p s = (r, t) \<Longrightarrow> live A C t \<and> r \<noteq> Inl Panic"
proof (induction C N p s rule: ssh_write_loop.induct)
  case (1 C N p s)
  obtain b c where pk: "peek_out (ss_conn s) = (b, c)" by fastforce
  have s': "live A C (s\<lparr>ss_conn := c\<rparr>)" using live_step [OF 1(2) step_peek] pk by simp
  show ?case
  proof (cases b)
    case None
    with 1(3) pk s' show ?thesis by (auto simp: ssh_write_loop.simps [of C N p s])
  next
    case (Some chunk)
    obtain q u where w: "sock_write N SshSock chunk (s\<lparr>ss_conn := c\<rparr>) = (q, u)" by fastforce
    have u: "live A C u" "q \<noteq> Inl Panic" using safelyD [OF safe_sock(1) s' w] by simp_all
    then have "live A C (u\<lparr>ss_conn := consume_out C n (ss_conn u)\<rparr>)" for n
      using live_step [OF u(1) step_consume] by blast
    with 1(1) [OF pk [symmetric] Some w [symmetric]] 1(3) u show ?thesis
      by (auto simp: ssh_write_loop.simps [of C N p s] pk Some w split: sum.splits wpoll.splits if_splits)
  qed
qed

lemma safe_ssh_write [safe_intro]: "safely (live A C) (poll_ssh_write C N)"
  unfolding poll_ssh_write_def by (rule safely_gen) (rule safe_ssh_write_loop)

lemma safe_rpoll_case [safe_intro]:
  "(\<And>d. safely I (f d)) \<Longrightarrow> (\<And>k m. safely I (g k m)) \<Longrightarrow> safely I h \<Longrightarrow>
   safely I (case r of ROk d \<Rightarrow> f d | RErr k m \<Rightarrow> g k m | RPending \<Rightarrow> h)"
  by (cases r) simp_all

lemma safe_cpoll_case [safe_intro]:
  "(\<And>d. safely I (f d)) \<Longrightarrow> (\<And>m. safely I (g m)) \<Longrightarrow> safely I h \<Longrightarrow>
   safely I (case r of COk d \<Rightarrow> f d | CErr m \<Rightarrow> g m | CPending \<Rightarrow> h)"
  by (cases r) simp_all

lemma safe_ssh_read [safe_intro]: "safely (live A C) (poll_ssh_read C N)"
  unfolding poll_ssh_read_def by (intro safe_intro safe_fail) simp

lemma safe_scan [safe_intro]: "safely (live A C) (scan_connects N ids)"
  by (induction ids) (simp_all only: scan_connects.simps, (intro safe_intro; assumption)+)

lemma scan_no_dests: "ss_dests s = [] \<Longrightarrow> scan_connects N ids s = (Inr ([], []), s)"
  by (induction ids) (simp_all add: ret_def withS_def)

lemma safe_connects [safe_intro]: "safely (live A C) (poll_connects C N)"
proof (rule safe_lift)
  show "safely (live True C) (poll_connects C N)"
    unfolding poll_connects_def finish_connect_def by (intro safe_intro)
  fix s r t
  assume "ss_dests s = []" and "poll_connects C N s = (r, t)"
  then show "r \<noteq> Inl Panic \<and> ss_dests t = [] \<and> ss_conn t = ss_conn s"
    by (auto simp: poll_connects_def withS_def bindE_def tick_def scan_no_dests ret_def)
qed

lemma safe_inbound_loop: "live A C s \<Longrightarrow> inbound_loop C N i p s = (r, t) \<Longrightarrow> live A C t \<and> r \<noteq> Inl Panic"
proof (induction C N i p s rule: inbound_loop_induct)
  case (step C N i p s)
  let ?dead = "bindE (on_conn (ignore (send_eof C i))) (\<lambda>_. bindE (on_conn (ignore (send_close C i)))
      (\<lambda>_. bindE (dest_remove i) (\<lambda>_. ret (True, True))))"
  have dead: "safely (live A C) ?dead" by (intro safe_intro)
  show ?case
  proof (cases "\<exists>chunk k ws re. peek_inbound (ss_conn s) i = Some chunk \<and> dest_of s i = Some (Up k ws re)")
    case False
    then have "inbound_loop C N i p s = (Inr (p, False), s)"
      by (auto simp: inbound_loop_eq [of C N i p s] split: option.splits dest.splits)
    with step(2,3) show ?thesis by auto
  next
    case True
    then obtain chunk k ws re where pk: "peek_inbound (ss_conn s) i = Some chunk" "dest_of s i = Some (Up k ws re)"
      by blast
    obtain q u where w: "sock_write N (DestSock k) chunk s = (q, u)" by fastforce
    have u: "live A C u" "q \<noteq> Inl Panic" using safelyD [OF safe_sock(1) step(2) w] by simp_all
    have c: "live A C (u\<lparr>ss_conn := snd (consume_inbound C i n (ss_conn u))\<rparr>)" for n
      using live_step [OF u(1) step_inbound] .
    have sh: "live A C (snd (set_write_shutdown i u))" using safe_shutdown u(1) by (simp add: safely_def)
    from step(1) [OF pk] step(3) u c sh safelyD [OF dead u(1)] show ?thesis
      by (auto simp: inbound_loop_eq [of C N i p s] pk w split: sum.splits wpoll.splits if_splits)
  qed
qed

lemma safe_poll_dest_one [safe_intro]: "safely (live A C) (poll_dest_one C N i)"
proof (rule safe_lift)
  have "safely (live True C) (inbound_loop C N i False)" by (rule safely_gen) (rule safe_inbound_loop)
  moreover have "safely (live True C) (read_dest C N i)" unfolding read_dest_def Let_def by (intro safe_intro)
  moreover have "safely (live True C) (settle_dest C i)"
    unfolding settle_dest_def Let_def by (intro safe_intro safe_modify) (simp add: live_def)
  ultimately show "safely (live True C) (poll_dest_one C N i)" unfolding poll_dest_one_def by (intro safe_intro)
  fix s r t
  assume d: "ss_dests s = []" and run: "poll_dest_one C N i s = (r, t)"
  from d have "inbound_loop C N i False s = (Inr (False, False), s)"
    by (simp add: inbound_loop_eq [of C N i False s] split: option.splits)
  with d run show "r \<noteq> Inl Panic \<and> ss_dests t = [] \<and> ss_conn t = ss_conn s"
    by (auto simp: poll_dest_one_def bindE_def read_dest_def settle_dest_def withS_def ret_def Let_def)
qed

lemma safe_poll_each [safe_intro]: "safely (live A C) (poll_each C N ids p)"
  by (induction ids arbitrary: p) (simp_all only: poll_each.simps, (intro safe_intro; assumption)+)

lemma safe_turn: "safely (live A C) (session_turn C N)"
  unfolding session_turn_def poll_dests_def by (intro safe_intro)

lemma session_poll_safe: "live A C s \<Longrightarrow> session_poll n C N s = Some (r, t) \<Longrightarrow> live A C t \<and> r \<noteq> Inl Panic"
proof (induction n arbitrary: s)
  case 0
  then show ?case by simp
next
  case (Suc n)
  obtain q u where t: "session_turn C N s = (q, u)" by fastforce
  have u: "live A C u" "q \<noteq> Inl Panic" using safelyD [OF safe_turn Suc(2) t] by simp_all
  with Suc(1) [OF u(1)] Suc(3) t show ?case by (auto split: sum.splits poll_out.splits)
qed

section \<open>What is forwarded\<close>

lemma sock_write_run:
  "sock_write N k chunk s = (Inr (n_write N (ss_calls s) k chunk),
     s\<lparr>ss_calls := ss_calls s + 1,
       ss_log := (case n_write N (ss_calls s) k chunk of
          WOk n \<Rightarrow> (ss_log s)(k := ss_log s k @ take n chunk) | _ \<Rightarrow> ss_log s)\<rparr>)"
  by (simp add: sock_write_def tick_def bindE_def modify_def ret_def split: wpoll.splits)

text \<open>
  \<open>moved k s t d\<close>: between the two states the socket \<open>k\<close> took the bytes \<open>d\<close> and no other socket took any.
\<close>

definition moved :: "sock \<Rightarrow> session \<Rightarrow> session \<Rightarrow> bytes \<Rightarrow> bool" where
  "moved k s t d \<longleftrightarrow> ss_log t = (ss_log s)(k := ss_log s k @ d)"

lemma moved_refl: "ss_log t = ss_log s \<Longrightarrow> moved k s t []"
  by (simp add: moved_def)

lemma moved_trans: "moved k s t d \<Longrightarrow> moved k t u e \<Longrightarrow> moved k s u (d @ e)"
  by (simp add: moved_def)

lemma log_shutdown [simp]: "ss_log (snd (set_write_shutdown i s)) = ss_log s"
  "ss_conn (snd (set_write_shutdown i s)) = ss_conn s"
  by (auto simp: set_write_shutdown_def dest_insert_def withS_def modify_def ret_def
      split: option.splits dest.splits)

text \<open>
  The inbound loop: unless the destination failed, the bytes it took are exactly those that left the
  inbound queue of the channel, in order.
\<close>

lemma inbound_loop_moves:
  assumes "dest_of s i = Some (Up k ws re)" and "inbound_loop C N i p s = (Inr (q, False), t)"
  shows "\<exists>d. moved (DestSock k) s t d \<and>
    concat (inbound (ss_conn s) i) = d @ concat (inbound (ss_conn t) i)"
  using assms
proof (induction C N i p s rule: inbound_loop_induct)
  case (step C N i p s)
  show ?case
  proof (cases "peek_inbound (ss_conn s) i")
    case None
    with step(3) have "t = s" by (simp add: inbound_loop_eq [of C N i p s])
    then show ?thesis by (auto intro: moved_refl)
  next
    case (Some chunk)
    let ?w = "n_write N (ss_calls s) (DestSock k) chunk"
    obtain u where w: "sock_write N (DestSock k) chunk s = (Inr ?w, u)" using sock_write_run by blast
    have uc: "ss_conn u = ss_conn s" and ud: "ss_dests u = ss_dests s" using w by (auto simp: sock_write_run)
    obtain rest where q: "inbound (ss_conn s) i = chunk # rest"
      using Some by (auto simp: peek_inbound_inbound split: list.splits)
    show ?thesis
    proof (cases "\<exists>n. ?w = WOk n \<and> n \<noteq> 0")
      case True
      then obtain n where n: "?w = WOk n" "n \<noteq> 0" by blast
      let ?v = "u\<lparr>ss_conn := snd (consume_inbound C i n (ss_conn u))\<rparr>"
      have "inbound_loop C N i True ?v = (Inr (q, False), t)"
        using step(3) by (simp add: inbound_loop_eq [of C N i p s] Some step(2) w n)
      then obtain d where d: "moved (DestSock k) ?v t d"
        "concat (inbound (ss_conn ?v) i) = d @ concat (inbound (ss_conn t) i)"
        using step(1) [OF Some step(2) w [unfolded n(1)] n(2)] step(2) ud by auto
      have "moved (DestSock k) s ?v (take n chunk)" using w n by (auto simp: moved_def sock_write_run)
      from moved_trans [OF this d(1)] have "moved (DestSock k) s t (take n chunk @ d)" .
      moreover have "concat (inbound (ss_conn s) i) = (take n chunk @ d) @ concat (inbound (ss_conn t) i)"
      proof -
        have "concat (inbound (ss_conn ?v) i) = drop n chunk @ concat rest"
          using inbound_consume [OF q, of C n] uc by simp
        then have "drop n chunk @ concat rest = d @ concat (inbound (ss_conn t) i)" using d(2) by simp
        moreover have "chunk @ concat rest = take n chunk @ drop n chunk @ concat rest" by simp
        ultimately show ?thesis using q by simp
      qed
      ultimately show ?thesis by blast
    next
      case False
      then have "ss_log t = ss_log s \<and> ss_conn t = ss_conn s"
        using step(3) w
        by (auto simp: inbound_loop_eq [of C N i p s] Some step(2) sock_write_run ret_def bindE_def
            split: wpoll.splits if_splits prod.splits sum.splits)
      then show ?thesis by (auto intro: moved_refl)
    qed
  qed
qed

end
