(* ===== verification/Session_Run.thy ===== *)
theory Session_Run
  imports Session
begin

text \<open>
  What a session does with its sockets: the life of a session as a reachability relation with its
  invariant, the order of the bytes it forwards, and when a poll returns.
\<close>

section \<open>Reachable sessions\<close>

text \<open>Each turn may meet another environment, and a session whose turn failed is dropped.\<close>

inductive session_reach :: "crypto \<Rightarrow> session \<Rightarrow> bool" for C where
  reach_new: "session_reach C (session_new C cfg rng)"
| reach_turn: "session_reach C s \<Longrightarrow> session_turn C N s = (Inr p, t) \<Longrightarrow> session_reach C t"

lemma session_reach_live: "session_reach C s \<Longrightarrow> live False C s"
proof (induction rule: session_reach.induct)
  case (reach_new cfg rng)
  then show ?case by (simp add: live_def session_new_def conn_reach.reach_server)
next
  case (reach_turn s N p t)
  then show ?case using safelyD [OF safe_turn] by blast
qed

section \<open>The order of the forwarded bytes\<close>

text \<open>What \<open>outbound_allowance\<close> allows is accepted whole.\<close>

lemma send_data_all:
  assumes "send_data C i d c = (Inr n, c')" and "length d \<le> conn_outbound_allowance c i"
  shows "n = length d"
proof (cases "d = []")
  case True
  with assms(1) show ?thesis by (simp add: send_data_def ret_def)
next
  case False
  with assms(2) have "0 < conn_outbound_allowance c i" by (meson length_greater_0_conv less_le_trans)
  with assms False show ?thesis
    by (auto simp: send_data_def send_data_loop_eq [of C i d 0 c] send_data_loop_eq [of C i d "length d"]
        min_absorb2 split: prod.splits sum.splits)
qed

lemma peek_out_pulled:
  assumes "peek_out c = (Some b, d)"
  shows "d = pull_current_out c \<and> fst (peek_out d) = Some b"
proof -
  have d: "d = pull_current_out c" "current_out d = Some b" "b \<noteq> []"
    using assms by (auto simp: peek_out_def Let_def nonempty_def split: if_splits option.splits)
  then have "pull_current_out d = d" by (intro pull_again) (simp add: nonempty_def)
  with d show ?thesis by (simp add: peek_out_def nonempty_def)
qed

text \<open>A socket never takes more than it is given.\<close>

definition honest :: "net \<Rightarrow> bool" where
  "honest N \<longleftrightarrow> (\<forall>t k chunk n. n_write N t k chunk = WOk n \<longrightarrow> n \<le> length chunk)"

lemma nothing_moved:
  "ss_log t = ss_log s \<Longrightarrow> out_stream (ss_conn t) = out_stream (ss_conn s) \<Longrightarrow>
   \<exists>d more. moved k s t d \<and> d @ out_stream (ss_conn t) = out_stream (ss_conn s) @ more \<and> (b \<longrightarrow> more = [])"
  by (rule exI [of _ "[]"], rule exI [of _ "[]"]) (simp add: moved_refl)

lemma ssh_write_loop_order:
  assumes "honest N" and "out_inv (ss_conn s)" and "ssh_write_loop C N p s = (r, t)"
  shows "\<exists>d more. moved SshSock s t d \<and> d @ out_stream (ss_conn t) = out_stream (ss_conn s) @ more \<and>
    (sent_kexinit (ss_conn s) \<longrightarrow> more = [])"
  using assms
proof (induction C N p s rule: ssh_write_loop.induct)
  case (1 C N p s)
  obtain b c where pk: "peek_out (ss_conn s) = (b, c)" by fastforce
  have c: "out_inv c" "out_stream c = out_stream (ss_conn s)"
    using pk 1(3) by (auto simp: peek_out_def Let_def out_inv_pull out_stream_pull)
  show ?case
  proof (cases b)
    case None
    with 1(4) pk have "t = s\<lparr>ss_conn := c\<rparr>" by (simp add: ssh_write_loop.simps [of C N p s])
    with c show ?thesis by (intro nothing_moved) simp_all
  next
    case (Some chunk)
    let ?w = "n_write N (ss_calls s) SshSock chunk"
    obtain u where w: "sock_write N SshSock chunk (s\<lparr>ss_conn := c\<rparr>) = (Inr ?w, u)"
      using sock_write_run by fastforce
    have uc: "ss_conn u = c" using w by (auto simp: sock_write_run)
    show ?thesis
    proof (cases "\<exists>n. ?w = WOk n \<and> n \<noteq> 0")
      case True
      then obtain n where n: "?w = WOk n" "n \<noteq> 0" by blast
      have le: "n \<le> length chunk" using 1(2) n by (auto simp: honest_def)
      let ?v = "u\<lparr>ss_conn := consume_out C n (ss_conn u)\<rparr>"
      have pc: "fst (peek_out c) = Some chunk" using peek_out_pulled pk Some by blast
      obtain m where m: "out_inv (consume_out C n c)" "prefix chunk (out_stream c)"
        "out_stream (consume_out C n c) = drop n (out_stream c) @ m" "sent_kexinit c \<longrightarrow> m = []"
        using consume_out_stream [OF c(1) pc le, of C] by blast
      have run: "ssh_write_loop C N True ?v = (r, t)"
        using 1(4) by (simp add: ssh_write_loop.simps [of C N p s] pk Some w n)
      have "out_inv (ss_conn ?v)" using m(1) uc by simp
      from 1(1) [OF pk [symmetric] Some w [symmetric] refl n 1(2) this run]
      obtain d more where d: "moved SshSock ?v t d"
        "d @ out_stream (ss_conn t) = out_stream (consume_out C n c) @ more"
        "sent_kexinit (consume_out C n c) \<longrightarrow> more = []" using uc by auto
      have "moved SshSock s ?v (take n chunk)" using w n by (auto simp: moved_def sock_write_run)
      from moved_trans [OF this d(1)] have mv: "moved SshSock s t (take n chunk @ d)" .
      have "take n chunk = take n (out_stream c)" using m(2) le by (auto simp: prefix_def)
      then have st: "(take n chunk @ d) @ out_stream (ss_conn t) = out_stream (ss_conn s) @ (m @ more)"
      proof -
        have "d @ out_stream (ss_conn t) = drop n (out_stream c) @ m @ more" using d(2) m(3) by simp
        then show ?thesis using c(2) \<open>take n chunk = take n (out_stream c)\<close>
          by (metis append.assoc append_take_drop_id)
      qed
      have "sent_kexinit (ss_conn s) \<longrightarrow> sent_kexinit c \<and> sent_kexinit (consume_out C n c)"
        using consume_out_shrinks [of "ss_conn s" chunk c n C] pk Some n peek_out_pulled [of "ss_conn s" chunk c]
        by auto
      with d(3) m(4) have "sent_kexinit (ss_conn s) \<longrightarrow> m @ more = []" by simp
      with mv st show ?thesis by blast
    next
      case False
      then have "ss_log t = ss_log s \<and> ss_conn t = c"
        using 1(4) w
        by (auto simp: ssh_write_loop.simps [of C N p s] pk Some sock_write_run split: wpoll.splits if_splits)
      with c show ?thesis by (intro nothing_moved) simp_all
    qed
  qed
qed


section \<open>When a poll returns\<close>

text \<open>
  From call \<open>T\<close> on the environment has nothing to give: every socket answers \<open>Pending\<close>. The clock may
  go on.
\<close>

definition idle_from :: "nat \<Rightarrow> net \<Rightarrow> bool" where
  "idle_from T N \<longleftrightarrow> (\<forall>t \<ge> T. (\<forall>k chunk. n_write N t k chunk = WPending) \<and>
     (\<forall>k. n_read N t k = RPending) \<and> (\<forall>host port. n_connect N t host port = CPending))"

text \<open>
  What is left to do without the sockets: destinations that may be given up and events that may be
  handled. \<open>settles\<close> says of an operation that it never adds to this, and takes from it whenever it
  reports progress.
\<close>

definition work :: "session \<Rightarrow> nat" where
  "work s = length (ss_dests s) + length (c_events (ss_conn s))"

definition settles :: "nat \<Rightarrow> ('a \<Rightarrow> bool) \<Rightarrow> (session, 'a) act \<Rightarrow> bool" where
  "settles T P m \<longleftrightarrow> (\<forall>s r t. T \<le> ss_calls s \<longrightarrow> m s = (r, t) \<longrightarrow>
     T \<le> ss_calls t \<and> work t \<le> work s \<and> (\<forall>x. r = Inr x \<longrightarrow> P x \<longrightarrow> work t < work s))"

abbreviation never :: "'a \<Rightarrow> bool" where
  "never \<equiv> \<lambda>_. False"

lemma settlesI:
  assumes "\<And>s r t. T \<le> ss_calls s \<Longrightarrow> m s = (r, t) \<Longrightarrow> T \<le> ss_calls t \<and> work t \<le> work s"
    and "\<And>s x t. T \<le> ss_calls s \<Longrightarrow> m s = (Inr x, t) \<Longrightarrow> P x \<Longrightarrow> work t < work s"
  shows "settles T P m"
  using assms unfolding settles_def by blast

lemma settlesD:
  "settles T P m \<Longrightarrow> T \<le> ss_calls s \<Longrightarrow> m s = (r, t) \<Longrightarrow>
   T \<le> ss_calls t \<and> work t \<le> work s \<and> (\<forall>x. r = Inr x \<longrightarrow> P x \<longrightarrow> work t < work s)"
  unfolding settles_def by blast

text \<open>Sequencing: the whole reports progress only if one of its parts does.\<close>

lemma settles_bindE:
  assumes m: "settles T P m" and f: "\<And>x. settles T (\<lambda>y. Q y \<and> \<not> P x) (f x)"
  shows "settles T Q (bindE m f)"
proof (unfold settles_def, intro allI impI)
  fix s r t
  assume s: "T \<le> ss_calls s" and run: "bindE m f s = (r, t)"
  obtain q u where q: "m s = (q, u)" by fastforce
  note mu = settlesD [OF m s q]
  show "T \<le> ss_calls t \<and> work t \<le> work s \<and> (\<forall>x. r = Inr x \<longrightarrow> Q x \<longrightarrow> work t < work s)"
  proof (cases q)
    case (Inl e)
    with run q mu show ?thesis by (auto simp: bindE_def)
  next
    case (Inr x)
    then have run': "f x u = (r, t)" using run q by (simp add: bindE_def)
    have "T \<le> ss_calls u" using mu by blast
    note fu = settlesD [OF f this run']
    have "work u < work s \<or> \<not> P x" using mu Inr by blast
    with fu mu show ?thesis by fastforce
  qed
qed

lemma settles_weak: "settles T P m \<Longrightarrow> (\<And>x. Q x \<Longrightarrow> P x) \<Longrightarrow> settles T Q m"
  unfolding settles_def by blast

lemma settles_ret: "\<not> P x \<Longrightarrow> settles T P (ret x)"
  by (simp add: settles_def ret_def)

lemma settles_withS: "(\<And>s. settles T P (f s)) \<Longrightarrow> settles T P (withS f)"
  by (simp add: settles_def withS_def)

lemma settles_tick: "settles T never (tick f)"
  by (auto simp: settles_def tick_def work_def)

lemma settles_remove: "settles T never (dest_remove i)"
  by (auto simp: settles_def dest_remove_def modify_def work_def length_delete_le)

text \<open>No call on the connection from here adds an event.\<close>

interpretation en: act_preorder "\<lambda>c d. c_events d = c_events c"
  by unfold_locales simp_all

lemma events_calls:
  "ensures (\<lambda>c d. c_events d = c_events c) (send_close C i)"
  "ensures (\<lambda>c d. c_events d = c_events c) (fail_open C i rs msg)"
proof -
  have q: "ensures (\<lambda>c d. c_events d = c_events c) (queue_msg C p prio)" for p prio
    by (rule ensures_gen) simp
  have f: "ensures (\<lambda>c d. c_events d = c_events c) (modify (\<lambda>c. c\<lparr>c_channels := g c\<rparr>))" for g
    by (rule ensures_gen) (simp add: modify_def)
  have t: "ensures (\<lambda>c d. c_events d = c_events c) (on_table (m :: (channel_table, unit) act))" for m
    by (rule ensures_gen) simp
  show "ensures (\<lambda>c d. c_events d = c_events c) (send_close C i)"
    unfolding send_close_def emit_close_if_ready_def
    by (intro en.ens_bindE en.ens_withS_all en.ens_tryR en.ens_if en.ens_ret en.ens_option q t f)
  show "ensures (\<lambda>c d. c_events d = c_events c) (fail_open C i rs msg)"
    unfolding fail_open_def by (intro en.ens_bindE en.ens_withS_all en.ens_tryR q f)
qed

lemma settles_conn:
  assumes "ensures (\<lambda>c d. c_events d = c_events c) m"
  shows "settles T never (on_conn m)"
proof (rule settlesI)
  fix s r t
  assume "T \<le> ss_calls s" and "on_conn m s = (r, t)"
  then show "T \<le> ss_calls t \<and> work t \<le> work s"
    using ensures_sndD [OF assms, of "ss_conn s"] by (auto simp: on_conn_def work_def split: prod.splits)
qed simp

lemma settles_for_each: "(\<And>x. settles T never (f x)) \<Longrightarrow> settles T never (for_each xs f)"
proof (induction xs)
  case (Cons x xs)
  have "settles T never (bindE (f x) (\<lambda>_. for_each xs f))"
    by (rule settles_bindE [OF Cons(2)]) (rule settles_weak [OF Cons(1) [OF Cons(2)]], simp)
  then show ?case by simp
qed (simp add: settles_ret)

subsection \<open>The parts of a turn\<close>

lemma length_update_le: "length (AList.update k v al) \<le> Suc (length al)"
  by (induction al) auto

lemma handle_event_work:
  "handle_event C N ev s = (r, t) \<Longrightarrow> ss_calls s \<le> ss_calls t \<and> length (ss_dests t) \<le> Suc (length (ss_dests s))"
  using length_delete_le [of _ "ss_dests s"] length_update_le [of _ _ "ss_dests s"]
  by (auto simp: handle_event_def on_conn_def start_connect_def set_write_shutdown_def dest_insert_def
      dest_remove_def tick_def ret_def modify_def withS_def bindE_def le_SucI
      split: event.splits prod.splits option.splits dest.splits)

lemma settles_events: "settles T never (handle_events C N)"
proof (rule settlesI)
  fix s r t
  assume "T \<le> ss_calls s" and "handle_events C N s = (r, t)"
  then show "T \<le> ss_calls t \<and> work t \<le> work s"
  proof (induction C N s rule: handle_events.induct)
    case (1 C N s)
    show ?case
    proof (cases "c_events (ss_conn s)")
      case Nil
      with 1(2,3) show ?thesis by (simp add: handle_events.simps [of C N s])
    next
      case (Cons ev es)
      let ?s = "s\<lparr>ss_conn := snd (pop_event (ss_conn s))\<rparr>"
      obtain q u where q: "handle_event C N ev ?s = (q, u)" by fastforce
      have "c_events (ss_conn u) = es"
        using handle_event_events [of C N ev ?s] q Cons by (simp add: pop_event_def)
      then have "ss_calls s \<le> ss_calls u" "work u \<le> work s"
        using handle_event_work [OF q] Cons by (simp_all add: work_def)
      with 1(1) [OF Cons q [symmetric]] 1(2,3) Cons q show ?thesis
        by (fastforce simp: handle_events.simps [of C N s] split: sum.splits)
    qed
  qed
qed simp

lemma events_pull [simp]: "c_events (pull_current_out c) = c_events c"
  by (simp add: pull_current_out_def Let_def split: list.splits)

lemma settles_ssh_write: "idle_from T N \<Longrightarrow> settles T (\<lambda>p. p) (poll_ssh_write C N)"
  by (auto simp: settles_def poll_ssh_write_def ssh_write_loop.simps [of C N False] peek_out_def Let_def
      sock_write_run idle_from_def work_def split: if_splits option.splits)

lemma settles_sock_read: "idle_from T N \<Longrightarrow> settles T (\<lambda>x. x \<noteq> RPending) (sock_read N k n)"
  by (auto simp: settles_def sock_read_def bindE_def tick_def ret_def work_def idle_from_def)

lemma settles_ssh_read: "idle_from T N \<Longrightarrow> settles T (\<lambda>x. x = Some True) (poll_ssh_read C N)"
  by (auto simp: settles_def poll_ssh_read_def sock_read_def withS_def bindE_def tick_def ret_def work_def idle_from_def)

lemma scan_idle:
  assumes "idle_from T N" and "T \<le> ss_calls s"
  shows "\<exists>late k. scan_connects N ids s = (Inr ([], late), s\<lparr>ss_calls := k\<rparr>) \<and> ss_calls s \<le> k \<and>
    set late \<subseteq> set (map fst (ss_dests s))"
  using assms(2)
proof (induction ids arbitrary: s)
  case Nil
  show ?case by (rule exI [of _ "[]"], rule exI [of _ "ss_calls s"]) (simp add: ret_def)
next
  case (Cons i ids)
  show ?case
  proof (cases "\<exists>h p dl. dest_of s i = Some (Connecting h p dl)")
    case False
    then have "scan_connects N (i # ids) s = scan_connects N ids s"
      by (auto simp: withS_def split: option.splits dest.splits)
    with Cons show ?thesis by simp
  next
    case True
    then obtain h p dl where d: "dest_of s i = Some (Connecting h p dl)" by blast
    then have i: "i \<in> set (map fst (ss_dests s))" by (force dest: map_of_SomeD)
    let ?s1 = "s\<lparr>ss_calls := ss_calls s + 1\<rparr>" and ?s2 = "s\<lparr>ss_calls := ss_calls s + 2\<rparr>"
    from Cons(1) [of ?s1] Cons(2) obtain late k where
      1: "scan_connects N ids ?s1 = (Inr ([], late), s\<lparr>ss_calls := k\<rparr>)" "ss_calls s \<le> k"
        "set late \<subseteq> set (map fst (ss_dests s))" by auto
    from Cons(1) [of ?s2] Cons(2) obtain late' k' where
      2: "scan_connects N ids ?s2 = (Inr ([], late'), s\<lparr>ss_calls := k'\<rparr>)" "ss_calls s \<le> k'"
        "set late' \<subseteq> set (map fst (ss_dests s))" by auto
    have pend: "n_connect N (ss_calls s + 1) h p = CPending" using assms(1) Cons(2) by (simp add: idle_from_def)
    have "scan_connects N (i # ids) s =
        (if n_now N (ss_calls s) > dl then (Inr ([], i # late), s\<lparr>ss_calls := k\<rparr>)
         else (Inr ([], late'), s\<lparr>ss_calls := k'\<rparr>))"
      using d 1(1) 2(1) pend by (simp add: withS_def bindE_def tick_def ret_def)
    with i 1 2 show ?thesis by (auto split: if_splits)
  qed
qed

lemma delete_length: "i \<in> set (map fst al) \<Longrightarrow> length (AList.delete i al) < length al"
  by (induction al) (auto simp: length_delete_le le_imp_less_Suc)

lemma remove_work: "i \<in> set (map fst (ss_dests s)) \<Longrightarrow> dest_remove i s = (r, t) \<Longrightarrow>
    work t < work s \<and> ss_calls t = ss_calls s"
  using delete_length [of i "ss_dests s"] by (auto simp: dest_remove_def modify_def work_def)

lemma settles_connects:
  assumes "idle_from T N"
  shows "settles T (\<lambda>p. p) (poll_connects C N)"
proof (unfold settles_def, intro allI impI)
  fix s r t
  assume s: "T \<le> ss_calls s" and run: "poll_connects C N s = (r, t)"
  let ?give_up = "\<lambda>i. bindE (dest_remove i) (\<lambda>_. on_conn (fail_open C i SSH_OPEN_CONNECT_FAILED (lit ''timeout'')))"
  let ?s = "s\<lparr>ss_calls := ss_calls s + 1\<rparr>"
  have one: "settles T never (?give_up i)" for i
    by (rule settles_bindE [OF settles_remove]) (rule settles_weak [OF settles_conn [OF events_calls(2)]], simp)
  from scan_idle [OF assms, of ?s "n_order N (ss_calls s) (map fst (ss_dests s))"] s
  obtain late k where late: "scan_connects N (n_order N (ss_calls s) (map fst (ss_dests s))) ?s =
      (Inr ([], late), s\<lparr>ss_calls := k\<rparr>)" "ss_calls s \<le> k" "set late \<subseteq> set (map fst (ss_dests s))" by auto
  let ?u = "s\<lparr>ss_calls := k\<rparr>"
  have u: "T \<le> ss_calls ?u" "work ?u = work s" using s late(2) by (simp_all add: work_def)
  have run: "bindE (for_each late ?give_up) (\<lambda>_. ret (late \<noteq> [])) ?u = (r, t)"
    using run late(1)
    by (simp add: poll_connects_def withS_def bindE_def [of "tick _"] tick_def bindE_def [of "scan_connects _ _"])
  show "T \<le> ss_calls t \<and> work t \<le> work s \<and> (\<forall>x. r = Inr x \<longrightarrow> x \<longrightarrow> work t < work s)"
  proof (cases late)
    case Nil
    with run u show ?thesis by (auto simp: bindE_def ret_def)
  next
    case (Cons i rest)
    obtain q v where v: "dest_remove i ?u = (q, v)" by fastforce
    have w: "work v < work s" "T \<le> ss_calls v"
      using remove_work [OF _ v] late(3) Cons u by auto
    let ?more = "bindE (on_conn (fail_open C i SSH_OPEN_CONNECT_FAILED (lit ''timeout'')))
      (\<lambda>_. bindE (for_each rest ?give_up) (\<lambda>_. ret True))"
    have "settles T never ?more"
      by (intro settles_bindE [of _ never] settles_weak [OF settles_conn [OF events_calls(2)], of never]
          settles_weak [OF settles_for_each [OF one]] settles_ret) simp_all
    moreover have "?more v = (r, t)"
      using run Cons v by (auto simp: bindE_def dest_remove_def modify_def split: prod.splits sum.splits)
    ultimately have "T \<le> ss_calls t" "work t \<le> work v" using settlesD [OF _ w(2)] by blast+
    with w show ?thesis by simp
  qed
qed

lemma settles_inbound: "idle_from T N \<Longrightarrow> settles T (\<lambda>(p, stop). p \<or> stop) (inbound_loop C N i False)"
  by (auto simp: settles_def inbound_loop_eq [of C N i False] sock_write_run idle_from_def work_def
      split: option.splits dest.splits)

lemma settles_read: "idle_from T N \<Longrightarrow> settles T (\<lambda>(p, stop). p \<or> stop) (read_dest C N i)"
  by (auto simp: settles_def read_dest_def withS_def Let_def sock_read_def bindE_def tick_def ret_def idle_from_def
      work_def split: option.splits dest.splits if_splits)

lemma settles_settle: "settles T (\<lambda>p. p) (settle_dest C i)"
proof -
  have close: "T \<le> ss_calls t \<and> work t < work s"
    if s: "T \<le> ss_calls s" "dest_of s i = Some d" and run: "on_conn (send_close C i) s = (q, u)" "dest_remove i u = (r, t)"
    for s q u r t d
  proof -
    have "work u \<le> work s" "T \<le> ss_calls u" using settlesD [OF settles_conn [OF events_calls(1)] s(1) run(1)] by blast+
    moreover have "ss_dests u = ss_dests s" using run(1) by (auto simp: on_conn_def split: prod.splits)
    then have "i \<in> set (map fst (ss_dests u))" using s(2) by (force dest: map_of_SomeD)
    ultimately show ?thesis using remove_work [OF _ run(2)] by fastforce
  qed
  have shut: "settle_dest C i s = (r, t) \<Longrightarrow> dest_of s i = Some (Up k ws re) \<Longrightarrow>
      \<exists>S. r = Inr False \<and> t = s\<lparr>ss_shut := S\<rparr> \<or>
        bindE (on_conn (send_close C i)) (\<lambda>_. bindE (dest_remove i) (\<lambda>_. ret True)) (s\<lparr>ss_shut := S\<rparr>) = (r, t)"
    for s r t k ws re
    by (auto simp: settle_dest_def withS_def Let_def bindE_modify ret_def split: if_splits
        intro: exI [of _ "ss_shut s"])
  show ?thesis
  proof (unfold settles_def, intro allI impI)
    fix s r t
    assume s: "T \<le> ss_calls s" and run: "settle_dest C i s = (r, t)"
    show "T \<le> ss_calls t \<and> work t \<le> work s \<and> (\<forall>x. r = Inr x \<longrightarrow> x \<longrightarrow> work t < work s)"
    proof (cases "\<exists>k ws re. dest_of s i = Some (Up k ws re)")
      case False
      then have "r = Inr False \<and> t = s"
        using run by (auto simp: settle_dest_def withS_def ret_def split: option.splits dest.splits)
      with s show ?thesis by simp
    next
      case True
      then obtain k ws re where d: "dest_of s i = Some (Up k ws re)" by blast
      from shut [OF run d] obtain S where S: "r = Inr False \<and> t = s\<lparr>ss_shut := S\<rparr> \<or>
        bindE (on_conn (send_close C i)) (\<lambda>_. bindE (dest_remove i) (\<lambda>_. ret True)) (s\<lparr>ss_shut := S\<rparr>) = (r, t)" by blast
      let ?s = "s\<lparr>ss_shut := S\<rparr>"
      obtain q u where q: "on_conn (send_close C i) ?s = (q, u)" by fastforce
      obtain v where v: "dest_remove i u = (Inr (), v)" by (simp add: dest_remove_def modify_def)
      have w: "work ?s = work s" by (simp add: work_def)
      have A: "T \<le> ss_calls v \<and> work v < work ?s" by (rule close [OF _ _ q v]) (use s d in simp_all)
      have "T \<le> ss_calls ?s" using s by simp
      from settlesD [OF settles_conn [OF events_calls(1)] this q] have B: "T \<le> ss_calls u \<and> work u \<le> work ?s" by blast
      from S show ?thesis
      proof
        assume "r = Inr False \<and> t = ?s"
        with s w show ?thesis by simp
      next
        assume "bindE (on_conn (send_close C i)) (\<lambda>_. bindE (dest_remove i) (\<lambda>_. ret True)) ?s = (r, t)"
        with q v have "(\<exists>e. r = Inl e \<and> t = u) \<or> r = Inr True \<and> t = v"
          by (auto simp: bindE_def ret_def split: sum.splits)
        with A B w show ?thesis by auto
      qed
    qed
  qed
qed

lemma settles_dest_one:
  assumes "idle_from T N"
  shows "settles T (\<lambda>p. p) (poll_dest_one C N i)"
proof -
  let ?last = "\<lambda>p1 (p2, stop). if stop then ret True else bindE (settle_dest C i) (\<lambda>p3. ret (p1 \<or> p2 \<or> p3))"
  have 3: "settles T (\<lambda>y. (y \<and> \<not> p1) \<and> \<not> (case z of (p, stop) \<Rightarrow> p \<or> stop)) (?last p1 z)" for p1 z
    by (cases z) (auto intro!: settles_ret settles_bindE [OF settles_settle])
  have 2: "settles T (\<lambda>y. y \<and> \<not> p1) (bindE (read_dest C N i) (?last p1))" for p1
    by (rule settles_bindE [OF settles_read [OF assms] 3])
  show ?thesis
    unfolding poll_dest_one_def
    by (rule settles_bindE [OF settles_inbound [OF assms]]) (auto intro!: settles_ret 2)
qed

lemma settles_each:
  assumes "idle_from T N"
  shows "settles T (\<lambda>p. p \<and> \<not> b) (poll_each C N ids b)"
proof (induction ids arbitrary: b)
  case Nil
  then show ?case by (simp add: settles_ret)
next
  case (Cons i ids)
  have skip: "settles T (\<lambda>p. p \<and> \<not> b) (bindE (dest_remove i) (\<lambda>_. poll_each C N ids b))"
    by (rule settles_bindE [OF settles_remove]) (simp add: Cons)
  have poll: "settles T (\<lambda>p. p \<and> \<not> b) (bindE (poll_dest_one C N i) (\<lambda>p. poll_each C N ids (b \<or> p)))"
    by (rule settles_bindE [OF settles_dest_one [OF assms]]) (rule settles_weak [OF Cons], simp)
  show ?case
    unfolding poll_each.simps by (rule settles_withS) (simp add: skip poll Cons)
qed

lemma settles_dests:
  assumes "idle_from T N"
  shows "settles T (\<lambda>p. p) (poll_dests C N)"
proof -
  have "settles T never (on_conn (\<lambda>c. case round_robin_ids c of (ids, c') \<Rightarrow> (Inr ids, c')))"
    by (rule settles_conn, rule ensures_gen) (simp add: round_robin_ids_def Let_def)
  from settles_bindE [OF this, of _ "\<lambda>ids. poll_each C N ids False"] settles_each [OF assms, of False]
  show ?thesis unfolding poll_dests_def by simp
qed

lemma settles_turn:
  assumes "idle_from T N"
  shows "settles T (\<lambda>x. x = Again) (session_turn C N)"
proof -
  have ev: "settles T (\<lambda>_. False) (handle_events C N)" by (rule settles_events)
  show ?thesis
    unfolding session_turn_def
    by (intro settles_bindE [OF settles_ssh_write [OF assms]] settles_bindE [OF settles_ssh_read [OF assms]]
        settles_bindE [OF ev] settles_bindE [OF settles_connects [OF assms]]
        settles_bindE [OF settles_dests [OF assms]] settles_withS) (auto intro!: settles_ret)
qed

lemma session_poll_idle:
  assumes "idle_from T N"
  shows "T \<le> ss_calls s \<Longrightarrow> work s < n \<Longrightarrow> \<exists>r t. session_poll n C N s = Some (r, t)"
proof (induction n arbitrary: s)
  case (Suc n)
  obtain q u where q: "session_turn C N s = (q, u)" by fastforce
  note w = settlesD [OF settles_turn [OF assms] Suc(2) q]
  show ?case
  proof (cases "q = Inr Again")
    case True
    with w Suc(3) have "T \<le> ss_calls u" "work u < n" by auto
    from Suc(1) [OF this] True q show ?thesis by simp
  next
    case False
    with q show ?thesis by (auto split: sum.splits poll_out.splits)
  qed
qed simp

subsection \<open>An environment that goes idle\<close>

text \<open>Calls are only ever added, and each turn polls the SSH socket at least once.\<close>

abbreviation later :: "session \<Rightarrow> session \<Rightarrow> bool" where
  "later \<equiv> \<lambda>s t. ss_calls s \<le> ss_calls t"

interpretation mc: act_preorder later
  by unfold_locales simp_all

lemmas calls_base = mc.ens_bindE mc.ens_withS_all mc.ens_if mc.ens_ret mc.ens_fail mc.ens_option
  mc.ens_prod mc.ens_let mc.ens_for_each

lemma calls_basic:
  "ensures later (on_conn m)" "ensures later (tick f)"
  "ensures later (dest_remove i)"
  "ensures later (dest_insert i d)"
  "ensures later (set_write_shutdown i)"
  "ensures later (sock_write N k chunk)"
  "ensures later (sock_read N k n)"
  "ensures later (modify (\<lambda>s. s\<lparr>ss_shut := h s\<rparr>))"
  by (auto simp: ensures_def on_conn_def tick_def dest_remove_def dest_insert_def set_write_shutdown_def
      sock_write_run sock_read_def withS_def bindE_def modify_def ret_def
      split: prod.splits option.splits dest.splits)

lemma calls_write_loop: "ss_calls s \<le> ss_calls (snd (ssh_write_loop C N p s))"
proof (induction C N p s rule: ssh_write_loop.induct)
  case (1 C N p s)
  obtain b c where pk: "peek_out (ss_conn s) = (b, c)" by fastforce
  show ?case
  proof (cases b)
    case None
    with pk show ?thesis by (simp add: ssh_write_loop.simps [of C N p s])
  next
    case (Some chunk)
    obtain q u where w: "sock_write N SshSock chunk (s\<lparr>ss_conn := c\<rparr>) = (q, u)" by fastforce
    have "ss_calls s \<le> ss_calls u" using ensuresD [OF calls_basic(6) w] by simp
    with 1 [OF pk [symmetric] Some w [symmetric]] show ?thesis
      by (fastforce simp: ssh_write_loop.simps [of C N p s] pk Some w split: sum.splits wpoll.splits)
  qed
qed

lemma calls_inbound_loop: "ss_calls s \<le> ss_calls (snd (inbound_loop C N i p s))"
proof (induction C N i p s rule: inbound_loop_induct)
  case (step C N i p s)
  show ?case
  proof (cases "\<exists>chunk k ws re. peek_inbound (ss_conn s) i = Some chunk \<and> dest_of s i = Some (Up k ws re)")
    case False
    then have "inbound_loop C N i p s = (Inr (p, False), s)"
      by (auto simp: inbound_loop_eq [of C N i p s] split: option.splits dest.splits)
    then show ?thesis by simp
  next
    case True
    then obtain chunk k ws re where pk: "peek_inbound (ss_conn s) i = Some chunk" "dest_of s i = Some (Up k ws re)"
      by blast
    obtain q u where w: "sock_write N (DestSock k) chunk s = (q, u)" by fastforce
    have u: "ss_calls s \<le> ss_calls u" using ensuresD [OF calls_basic(6) w] by simp
    have "ensures later (bindE (on_conn (ignore (send_eof C i)))
        (\<lambda>_. bindE (on_conn (ignore (send_close C i))) (\<lambda>_. bindE (dest_remove i) (\<lambda>_. ret (True, True)))))"
      by (intro calls_base calls_basic)
    then have dead: "ss_calls u \<le> ss_calls (snd (bindE (on_conn (ignore (send_eof C i)))
        (\<lambda>_. bindE (on_conn (ignore (send_close C i))) (\<lambda>_. bindE (dest_remove i) (\<lambda>_. ret (True, True)))) u))"
      by (rule ensures_sndD)
    have sh: "ss_calls u \<le> ss_calls (snd (set_write_shutdown i u))" by (rule ensures_sndD [OF calls_basic(5)])
    from step [OF pk] u dead sh show ?thesis
      by (fastforce simp: inbound_loop_eq [of C N i p s] pk w split: sum.splits wpoll.splits)
  qed
qed

lemma calls_events: "ss_calls s \<le> ss_calls (snd (handle_events C N s))"
  using settlesD [OF settles_events [of "ss_calls s" C N], of s] by (cases "handle_events C N s") simp

lemma calls_dest_cases:
  "(\<And>h p t. ensures later (f h p t)) \<Longrightarrow>
   (\<And>k ws re. ensures later (g k ws re)) \<Longrightarrow>
   ensures later (case d of Connecting h p t \<Rightarrow> f h p t | Up k ws re \<Rightarrow> g k ws re)"
  by (cases d) simp_all

lemma calls_rpoll_cases:
  "(\<And>d. ensures later (f d)) \<Longrightarrow> (\<And>k m. ensures later (g k m)) \<Longrightarrow>
   ensures later h \<Longrightarrow>
   ensures later (case r of ROk d \<Rightarrow> f d | RErr k m \<Rightarrow> g k m | RPending \<Rightarrow> h)"
  by (cases r) simp_all

lemma calls_cpoll_cases:
  "(\<And>d. ensures later (f d)) \<Longrightarrow> (\<And>m. ensures later (g m)) \<Longrightarrow>
   ensures later h \<Longrightarrow>
   ensures later (case r of COk d \<Rightarrow> f d | CErr m \<Rightarrow> g m | CPending \<Rightarrow> h)"
  by (cases r) simp_all

lemmas calls_rules = calls_base calls_basic calls_dest_cases calls_rpoll_cases calls_cpoll_cases

lemma calls_scan: "ensures later (scan_connects N ids)"
  by (induction ids) (simp_all only: scan_connects.simps, (intro calls_rules; assumption)+)

lemma calls_parts:
  "ensures later (poll_connects C N)"
  "ensures later (poll_dest_one C N i)"
  "ensures later (poll_ssh_write C N)"
  "ensures later (handle_events C N)"
  by (auto simp: poll_connects_def finish_connect_def poll_dest_one_def read_dest_def settle_dest_def
      poll_ssh_write_def intro!: calls_rules calls_scan ensures_gen [of _ "inbound_loop C N i False"]
      calls_inbound_loop ensures_gen [of _ "ssh_write_loop C N False"] calls_write_loop
      ensures_gen [of _ "handle_events C N"] calls_events)

lemma calls_each: "ensures later (poll_each C N ids p)"
  by (induction ids arbitrary: p) (simp_all only: poll_each.simps, (intro calls_rules calls_parts; assumption)+)

lemma calls_read:
  assumes "poll_ssh_read C N s = (r, t)"
  shows "ss_calls s < ss_calls t"
proof -
  let ?f = "\<lambda>r. case r of
       ROk d \<Rightarrow>
         if d = [] then
           bindE (on_conn (disconnect C SSH_DISCONNECT_BY_APPLICATION (lit ''connection lost''))) (\<lambda>_. ret (Some True))
         else
           bindE (on_conn (modify (\<lambda>c. c\<lparr>read_buf := read_buf c @ d\<rparr>))) (\<lambda>_.
           bindE (on_conn (process_in C)) (\<lambda>_. ret (Some True)))
     | RErr kind msg \<Rightarrow> if kind = WouldBlock then ret None else fail (Io kind msg)
     | RPending \<Rightarrow> ret None"
  obtain q where q: "sock_read N SshSock (ss_ssh_tmp s) s = (Inr q, s\<lparr>ss_calls := ss_calls s + 1\<rparr>)"
    by (simp add: sock_read_def bindE_def tick_def ret_def)
  have "ensures later (?f q)" by (intro calls_rules)
  moreover have "?f q (s\<lparr>ss_calls := ss_calls s + 1\<rparr>) = (r, t)"
    using assms by (simp add: poll_ssh_read_def withS_def bindE_ok [where m = "sock_read N SshSock (ss_ssh_tmp s)" and s = s, OF q])
  ultimately show ?thesis using ensuresD by fastforce
qed

lemma session_turn_calls:
  assumes "session_turn C N s = (Inr x, t)"
  shows "ss_calls s < ss_calls t"
proof -
  let ?rest = "\<lambda>p1 p2. bindE (poll_ssh_write C N) (\<lambda>p3. bindE (handle_events C N) (\<lambda>_.
     bindE (poll_connects C N) (\<lambda>p4. bindE (poll_dests C N) (\<lambda>p5. bindE (handle_events C N) (\<lambda>_.
     bindE (poll_ssh_write C N) (\<lambda>p6. withS (\<lambda>s.
       if is_finished (ss_conn s) then ret Ready
       else if is_closed (ss_conn s) \<and> \<not> wants_write (ss_conn s) then ret Ready
       else if \<not> (p1 \<or> p2 = Some True \<or> p3 \<or> p4 \<or> p5 \<or> p6) then ret PollPending
       else ret Again)))))))"
  have rest: "ensures later (?rest p1 p2)" for p1 p2
    unfolding poll_dests_def by (intro calls_rules calls_parts calls_each)
  have "bindE (poll_ssh_write C N) (\<lambda>p1. bindE (poll_ssh_read C N) (?rest p1)) s = (Inr x, t)"
    by (rule assms [unfolded session_turn_def])
  then obtain p1 u where 1: "poll_ssh_write C N s = (Inr p1, u)" "bindE (poll_ssh_read C N) (?rest p1) u = (Inr x, t)"
    unfolding bindE_Inr [where m = "poll_ssh_write C N" and s = s] by blast
  then obtain p2 v where 2: "poll_ssh_read C N u = (Inr p2, v)" "?rest p1 p2 v = (Inr x, t)"
    unfolding bindE_Inr [where m = "poll_ssh_read C N"] by blast
  note run = 1(1) 2
  have "ss_calls s \<le> ss_calls u" using ensuresD [OF calls_parts(3) run(1)] .
  also have "\<dots> < ss_calls v" by (rule calls_read [OF run(2)])
  also have "\<dots> \<le> ss_calls (snd (?rest p1 p2 v))" by (rule ensures_sndD [OF rest])
  also have "\<dots> = ss_calls t" by (simp only: run(3) snd_conv)
  finally show ?thesis .
qed

lemma session_poll_ends:
  assumes "idle_from T N"
  shows "\<exists>n r t. session_poll n C N s = Some (r, t)"
proof (induction "T - ss_calls s" arbitrary: s rule: less_induct)
  case less
  obtain q u where q: "session_turn C N s = (q, u)" by fastforce
  show ?case
  proof (cases "T \<le> ss_calls s")
    case True
    then show ?thesis using session_poll_idle [OF assms True lessI] by blast
  next
    case False
    show ?thesis
    proof (cases "q = Inr Again")
      case True
      with session_turn_calls [of C N s Again u] q False have "T - ss_calls u < T - ss_calls s" by simp
      then obtain n r t where "session_poll n C N u = Some (r, t)" using less by blast
      with q True have "session_poll (Suc n) C N s = Some (r, t)" by simp
      then show ?thesis by blast
    next
      case False
      with q have "session_poll (Suc 0) C N s = Some (q, u)" by (auto split: sum.splits poll_out.splits)
      then show ?thesis by blast
    qed
  qed
qed

section \<open>A closed connection whose output is blocked\<close>

text \<open>
  The SSH peer has closed its sending side, so that every read reports the end of the stream, and
  does not read any more, so that no write gets on.
\<close>

definition half_dead :: "net \<Rightarrow> bool" where
  "half_dead N \<longleftrightarrow> (\<forall>t. (\<forall>chunk. n_write N t SshSock chunk = WPending) \<and> n_read N t SshSock = ROk [])"

definition stuck :: "session \<Rightarrow> bool" where
  "stuck s \<longleftrightarrow> c_closed (ss_conn s) \<and> nonempty (current_out (ss_conn s)) \<and> c_events (ss_conn s) = [] \<and>
     slots (c_channels (ss_conn s)) = [] \<and> ss_dests s = []"

lemma stuck_calls [simp]: "stuck (s\<lparr>ss_calls := n\<rparr>) = stuck s"
  by (simp add: stuck_def)

lemma stuck_write:
  assumes "half_dead N" and "stuck s"
  shows "poll_ssh_write C N s = (Inr False, s\<lparr>ss_calls := ss_calls s + 1\<rparr>)"
proof -
  obtain b where b: "current_out (ss_conn s) = Some b" "b \<noteq> []"
    using assms(2) by (auto simp: stuck_def nonempty_def split: option.splits)
  then have "peek_out (ss_conn s) = (Some b, ss_conn s)"
    by (simp add: peek_out_def pull_again nonempty_def)
  with assms(1) show ?thesis
    by (simp add: poll_ssh_write_def ssh_write_loop.simps [of C N False s] sock_write_run half_dead_def)
qed

lemma stuck_turn:
  assumes N: "half_dead N" and s: "stuck s"
  shows "\<exists>k. session_turn C N s = (Inr Again, s\<lparr>ss_calls := k\<rparr>)"
proof -
  have w: "bindE (poll_ssh_write C N) f (s\<lparr>ss_calls := n\<rparr>) = f False (s\<lparr>ss_calls := n + 1\<rparr>)" for f n
    using stuck_write [OF N, of "s\<lparr>ss_calls := n\<rparr>" C] s by (simp add: bindE_def)
  have rd: "bindE (poll_ssh_read C N) f (s\<lparr>ss_calls := n\<rparr>) = f (Some True) (s\<lparr>ss_calls := n + 1\<rparr>)" for f n
    using N s by (simp add: poll_ssh_read_def half_dead_def sock_read_def withS_def bindE_def tick_def ret_def
        on_conn_def disconnect_def stuck_def)
  have ev: "bindE (handle_events C N) f (s\<lparr>ss_calls := n\<rparr>) = f () (s\<lparr>ss_calls := n\<rparr>)" for f n
    using s by (simp add: bindE_def handle_events.simps [of C N "s\<lparr>ss_calls := n\<rparr>"] stuck_def)
  have cn: "bindE (poll_connects C N) f (s\<lparr>ss_calls := n\<rparr>) = f False (s\<lparr>ss_calls := n + 1\<rparr>)" for f n
    using s by (simp add: bindE_def poll_connects_def withS_def tick_def scan_no_dests ret_def stuck_def)
  have ds: "bindE (poll_dests C N) f (s\<lparr>ss_calls := n\<rparr>) = f False (s\<lparr>ss_calls := n\<rparr>)" for f n
    using s by (simp add: bindE_def poll_dests_def on_conn_def round_robin_ids_def iter_ids_def List.map_filter_def
        stuck_def ret_def)
  have live: "\<not> is_finished (ss_conn s)" "wants_write (ss_conn s)"
    using s by (simp_all add: is_finished_def wants_write_def stuck_def)
  have "session_turn C N (s\<lparr>ss_calls := n\<rparr>) = (Inr Again, s\<lparr>ss_calls := n + 5\<rparr>)" for n
    unfolding session_turn_def by (simp only: w rd ev cn ds) (simp add: withS_def live ret_def numeral_eq_Suc)
  from this [of "ss_calls s"] show ?thesis by auto
qed

lemma stuck_forever: "half_dead N \<Longrightarrow> stuck s \<Longrightarrow> session_poll n C N s = None"
proof (induction n arbitrary: s)
  case (Suc n)
  from stuck_turn [OF Suc(2,3), of C] obtain k where k: "session_turn C N s = (Inr Again, s\<lparr>ss_calls := k\<rparr>)" by blast
  with Suc(1) [OF Suc(2), of "s\<lparr>ss_calls := k\<rparr>"] Suc(3) show ?case by simp
qed simp

section \<open>Properties\<close>

text \<open>Two environments and a session for the examples: one that never answers, and one whose sockets take
  everything but the SSH socket, which takes one byte at a time.\<close>

definition silent_net :: net where
  "silent_net = \<lparr>n_write = (\<lambda>t k chunk. WPending), n_read = (\<lambda>t k. RPending),
     n_connect = (\<lambda>t host port. CPending), n_now = (\<lambda>t. t), n_order = (\<lambda>t ids. ids)\<rparr>"

definition eager_net :: net where
  "eager_net = silent_net\<lparr>n_write := (\<lambda>t k chunk. if k = SshSock then WOk (min 1 (length chunk)) else WOk (length chunk)),
     n_read := (\<lambda>t k. if k = SshSock then ROk [] else ROk [7, 8, 9])\<rparr>"

definition demo_session :: session where
  "demo_session = (session_new demo_crypto demo_server_cfg 0)
     \<lparr>ss_conn := demo_server\<lparr>c_authed := True, kex_blocks_app := True, sent_kexinit := True,
        write_q := [[1, 2], [3]], write_bytes := 3,
        c_channels := \<lparr>slots = [Some (demo_channel\<lparr>in_q := [[4, 5], [6]], in_q_bytes := 3\<rparr>)],
          tbl_free = [], max_channels = 16\<rparr>\<rparr>,
      ss_dests := [(0, Up 5 False False)]\<rparr>"

text \<open>Claim C9. No turn of a reachable session panics, whatever its sockets, the clock and the
  connects answer, and the connection it drives keeps its invariant. The panic sites are those
  of the connection that the session calls.\<close>

theorem session_safe:
  assumes "session_reach C s"
  shows "fst (session_turn C N s) \<noteq> Inl Panic \<and> conn_inv (ss_conn (snd (session_turn C N s)))"
proof -
  obtain r t where run: "session_turn C N s = (r, t)" by fastforce
  from safelyD [OF safe_turn session_reach_live [OF assms] run] have "live False C t" "r \<noteq> Inl Panic" by blast+
  with run reach_inv [OF live_reach] show ?thesis by simp
qed

theorem session_safe_witness:
  "fst (session_turn demo_crypto eager_net (session_new demo_crypto demo_server_cfg 0)) \<noteq> Inl Panic"
  using session_safe [OF reach_new] by blast

text \<open>Claim C8. A session that has not authenticated its peer has no destination: no channel is open,
  none is announced in the event queue and no connect has been started, in every reachable state
  of a session and its connection.\<close>

theorem no_destination_before_auth:
  assumes "session_reach C s" and "\<not> c_authed (ss_conn s)"
  shows "ss_dests s = [] \<and> dom (chan (ss_conn s)) = {} \<and> (\<forall>e \<in> set (c_events (ss_conn s)). \<not> opens e)"
  using session_reach_live [OF assms(1)] reach_gate [OF live_reach [OF session_reach_live [OF assms(1)]]] assms(2)
  by (simp add: live_def gate_def)

lemma new_unauthed: "\<not> c_authed (ss_conn (session_new C cfg rng))"
proof -
  have "auth_of (snd (start_kex C c)) = auth_of c" for c by (rule ensures_sndD [OF au.ens_start_kex])
  then have "c_authed (snd (start_kex C c)) = c_authed c" for c by (simp add: auth_of_def)
  then show ?thesis by (simp add: session_new_def conn_server_def Let_def queue_ident_def conn_new_def)
qed

theorem no_destination_before_auth_witness:
  "ss_dests (session_new demo_crypto demo_server_cfg 0) = [] \<and>
   dom (chan (ss_conn (session_new demo_crypto demo_server_cfg 0))) = {}"
  using no_destination_before_auth [OF reach_new new_unauthed] by blast

text \<open>Claim C12. In a pass in which the destination is not given up, the bytes it takes from the
  inbound queue of its channel are exactly those that leave the queue, in order; no other socket
  is written.\<close>

theorem inbound_forwarded:
  assumes "dest_of s i = Some (Up k ws re)" and "inbound_loop C N i p s = (Inr (q, False), t)"
  shows "\<exists>d. ss_log t = (ss_log s)(DestSock k := ss_log s (DestSock k) @ d) \<and>
    concat (inbound (ss_conn s) i) = d @ concat (inbound (ss_conn t) i)"
  using inbound_loop_moves [OF assms] by (simp add: moved_def)


text \<open>Claim C11. Writing to the SSH socket hands over exactly the front of the output, in order and
  without loss: what was taken followed by what is left is what was there, followed by what
  draining the identification may append, which is nothing once the KEXINIT has been sent.\<close>

theorem ssh_write_in_order:
  assumes "honest N" and "out_inv (ss_conn s)" and "poll_ssh_write C N s = (r, t)"
  shows "\<exists>d more. ss_log t = (ss_log s)(SshSock := ss_log s SshSock @ d) \<and>
    d @ out_stream (ss_conn t) = out_stream (ss_conn s) @ more \<and> (sent_kexinit (ss_conn s) \<longrightarrow> more = [])"
  using ssh_write_loop_order [OF assms(1,2)] assms(3) by (simp add: moved_def poll_ssh_write_def)

theorem ssh_write_in_order_witness:
  "\<exists>d. (case poll_ssh_write demo_crypto eager_net demo_session of (r, t) \<Rightarrow>
     ss_log t SshSock = d \<and> d @ out_stream (ss_conn t) = [1, 2, 3])"
proof -
  have s: "honest eager_net" "out_inv (ss_conn demo_session)" "sent_kexinit (ss_conn demo_session)"
    "out_stream (ss_conn demo_session) = [1, 2, 3]" "ss_log demo_session SshSock = []"
    by (simp_all add: honest_def eager_net_def demo_session_def demo_simps out_inv_def opt_len_def
        out_stream_def session_new_def)
  obtain r t where run: "poll_ssh_write demo_crypto eager_net demo_session = (r, t)" by fastforce
  from ssh_write_in_order [OF s(1,2) run] s(3-5) run show ?thesis by auto
qed

text \<open>Claim C10. Polling a session returns whenever its environment goes idle, and once it is idle
  within one turn more than there are destinations and events to settle.\<close>

theorem session_poll_returns:
  assumes "idle_from T N"
  shows "(\<exists>n. session_poll n C N s \<noteq> None) \<and>
    (T \<le> ss_calls s \<longrightarrow> session_poll (Suc (work s)) C N s \<noteq> None)"
  using session_poll_ends [OF assms, of C s] session_poll_idle [OF assms, of s "Suc (work s)" C] by auto

theorem session_poll_returns_witness:
  "session_poll (Suc (work demo_session)) demo_crypto silent_net demo_session \<noteq> None"
proof -
  have "idle_from 0 silent_net" by (simp add: idle_from_def silent_net_def)
  from session_poll_returns [OF this] show ?thesis by simp
qed



theorem inbound_forwarded_witness:
  "\<exists>t d. inbound_loop demo_crypto eager_net 0 False demo_session = (Inr (True, False), t) \<and>
     ss_log t (DestSock 5) = d \<and> [4, 5, 6] = d @ concat (inbound (ss_conn t) 0)"
proof -
  have d: "dest_of demo_session 0 = Some (Up 5 False False)" "ss_log demo_session (DestSock 5) = []"
    "concat (inbound (ss_conn demo_session) 0) = [4, 5, 6]"
    by (simp_all add: demo_session_def session_new_def inbound_def ct_look_def)
  obtain t where run: "inbound_loop demo_crypto eager_net 0 False demo_session = (Inr (True, False), t)"
    by (simp add: inbound_loop_eq demo_session_def session_new_def peek_inbound_def ct_look_def sock_write_run
        eager_net_def silent_net_def consume_inbound_def withS_def take_inbound_eq maybe_adjust_def
        bindE_def on_table_def ct_update_def update_take_inbound ret_def Let_def demo_simps)
  from inbound_forwarded [OF d(1) run] d run show ?thesis by auto
qed


end
