(* ===== verification/Startup.thy ===== *)
theory Startup
  imports Session_Run
begin

text \<open>
  Starting the daemon: the host key file of \<^verbatim>\<open>src/src/config.rs\<close> on a file system, the assembly of the
  configuration in \<^verbatim>\<open>src/src/main.rs\<close>, the accept loop of \<^verbatim>\<open>src/src/server/mod.rs\<close> and the texts of
  errors of \<^verbatim>\<open>src/src/error.rs\<close>. The file system is a map from paths to contents; which calls on it fail,
  and what a failed write leaves behind, is up to the parameter \<open>os\<close>.
\<close>

section \<open>The file system\<close>

record os =
  o_stat_fails :: "rstr \<Rightarrow> bool"
  o_read_err :: "rstr \<Rightarrow> (io_kind \<times> rstr) option"
  o_write_err :: "rstr \<Rightarrow> (io_kind \<times> rstr \<times> bytes option) option"
  o_missing :: "io_kind \<times> rstr"
  o_not_utf8 :: "io_kind \<times> rstr"

record disk =
  files :: "rstr \<Rightarrow> bytes option"
  d_rng :: nat

text \<open>\<open>Path::exists\<close>, \<open>std::fs::write\<close> and \<open>std::fs::read_to_string\<close>.\<close>

definition path_exists :: "os \<Rightarrow> rstr \<Rightarrow> disk \<Rightarrow> bool" where
  "path_exists Fs path d \<longleftrightarrow> \<not> o_stat_fails Fs path \<and> files d path \<noteq> None"

definition fs_write :: "os \<Rightarrow> rstr \<Rightarrow> bytes \<Rightarrow> (disk, unit) act" where
  "fs_write Fs path body d =
     (case o_write_err Fs path of
        None \<Rightarrow> (Inr (), d\<lparr>files := (files d)(path \<mapsto> body)\<rparr>)
      | Some (k, m, left) \<Rightarrow> (Inl (Io k m), d\<lparr>files := (files d)(path := left)\<rparr>))"

definition read_to_string :: "os \<Rightarrow> rstr \<Rightarrow> (disk, rstr) act" where
  "read_to_string Fs path = withS (\<lambda>d.
     case o_read_err Fs path of
       Some (k, m) \<Rightarrow> fail (Io k m)
     | None \<Rightarrow>
         (case files d path of
            None \<Rightarrow> fail (Io (fst (o_missing Fs)) (snd (o_missing Fs)))
          | Some b \<Rightarrow> tryR (from_utf8 (Io (fst (o_not_utf8 Fs)) (snd (o_not_utf8 Fs))) b)))"

section \<open>The host key file\<close>

text \<open>\<open>SigningKey::generate\<close> draws the 32 bytes of the seed from the generator it is given.\<close>

definition hk_generate :: "crypto \<Rightarrow> (disk, host_key) act" where
  "hk_generate C d = (Inr (hk_from_seed (map (os_rng C) [d_rng d..<d_rng d + 32])), d\<lparr>d_rng := d_rng d + 32\<rparr>)"

definition public_path :: "rstr \<Rightarrow> rstr" where
  "public_path path = path @ lit ''.pub''"

definition save_host_key :: "os \<Rightarrow> rstr \<Rightarrow> host_key \<Rightarrow> (disk, unit) act" where
  "save_host_key Fs path key = fs_write Fs path (host_key_text key)"

definition load_host_key :: "os \<Rightarrow> rstr \<Rightarrow> (disk, host_key) act" where
  "load_host_key Fs path = bindE (read_to_string Fs path) (\<lambda>text. tryR (parse_host_key text))"

definition load_or_create_host_key :: "crypto \<Rightarrow> os \<Rightarrow> rstr \<Rightarrow> (disk, host_key) act" where
  "load_or_create_host_key C Fs path = withS (\<lambda>d.
     if path_exists Fs path d then load_host_key Fs path
     else
       bindE (hk_generate C) (\<lambda>key.
       bindE (save_host_key Fs path key) (\<lambda>_.
       bindE (ignore (fs_write Fs (public_path path) (openssh_public_line C key (lit ''ssproxyd'') @ [10]))) (\<lambda>_.
       ret key))))"

definition test_config :: "crypto \<Rightarrow> (disk, server_config) act" where
  "test_config C =
     bindE (hk_generate C) (\<lambda>key.
     ret (server_config_new key [\<lparr>u_name = lit ''proxy'', u_password = lit ''proxy''\<rparr>]))"

section \<open>The daemon\<close>

record args =
  a_listen :: rstr
  a_user :: "rstr list"
  a_host_key :: rstr
  a_ident :: rstr
  a_window :: u32
  a_max_packet :: u32

text \<open>The arguments of a command line that gives none.\<close>

definition args_default :: args where
  "args_default =
     \<lparr>a_listen = lit ''0.0.0.0:2222'', a_user = [], a_host_key = lit ''ssproxy_host_ed25519'',
      a_ident = lit ''SSH-2.0-OpenSSH_9.6'', a_window = 2 * 1024 * 1024, a_max_packet = 32 * 1024\<rparr>"

text \<open>\<open>Result::expect\<close>.\<close>

definition expect :: "('s, 'a) act \<Rightarrow> ('s, 'a) act" where
  "expect m s = (case m s of (Inl e, t) \<Rightarrow> (Inl Panic, t) | (Inr x, t) \<Rightarrow> (Inr x, t))"

definition main_config :: "crypto \<Rightarrow> os \<Rightarrow> args \<Rightarrow> (disk, server_config) act" where
  "main_config C Fs a =
     (let users = users_of_args (a_user a) in
      bindE (expect (load_or_create_host_key C Fs (a_host_key a))) (\<lambda>host_key.
      ret ((server_config_new host_key users)
             \<lparr>sc_ident := a_ident a, sc_window := a_window a, sc_max_packet := a_max_packet a\<rparr>)))"

text \<open>
  The accept loop over the outcomes of \<open>accept\<close>: the sessions spawned, and the error that ends it. Each
  session draws from the generator where \<open>rng\<close> puts it.
\<close>

primrec serve :: "crypto \<Rightarrow> server_config \<Rightarrow> (nat \<Rightarrow> nat) \<Rightarrow> unit result list \<Rightarrow> session list \<times> error option" where
  "serve C cfg rng [] = ([], None)"
| "serve C cfg rng (r # rs) =
     (case r of
        Inl e \<Rightarrow> ([], Some e)
      | Inr _ \<Rightarrow> (case serve C cfg rng rs of (ss, e) \<Rightarrow> (session_new C cfg (rng (length rs)) # ss, e)))"

section \<open>Error texts\<close>

primrec error_text :: "error \<Rightarrow> rstr" where
  "error_text (Io k e) = lit ''io: '' @ e"
| "error_text (Protocol m) = lit ''protocol: '' @ lit m"
| "error_text (ProtocolFmt m) = lit ''protocol: '' @ m"
| "error_text (Crypto m) = lit ''crypto: '' @ lit m"
| "error_text Auth = lit ''authentication failed''"
| "error_text (Disconnect reason message) =
     lit ''disconnect ('' @ dec_digits (unat reason) @ lit ''): '' @ message"
| "error_text Closed = lit ''connection closed''"
| "error_text TimedOut = lit ''timed out''"
| "error_text Panic = []"

section \<open>Properties\<close>

lemma host_key_text_utf8: "utf8_ok (host_key_text k)"
proof (rule utf8_ok_ascii)
  have "\<forall>x \<in> set (lit ''ssproxy-ed25519-seed-v1'' @ [10 :: byte]). x < 0x80" by (simp add: lit_def)
  then show "\<forall>x \<in> set (host_key_text k). x < 0x80"
    using set_hex by (fastforce simp: host_key_text_def)
qed

lemma load_saved:
  assumes "files d path = Some (host_key_text k)" and "length (signing k) = 32" and "o_read_err Fs path = None"
  shows "load_host_key Fs path d = (Inr k, d)"
  using assms parse_host_key_text [OF assms(2)] host_key_text_utf8 [of k]
  by (simp add: load_host_key_def read_to_string_def withS_def bindE_def tryR_def from_utf8_def)

lemma create_host_key:
  assumes "\<not> path_exists Fs path d" and "load_or_create_host_key C Fs path d = (Inr k, d')"
  shows "length (signing k) = 32 \<and> files d' path = Some (host_key_text k)"
proof -
  have "public_path path \<noteq> path" by (simp add: public_path_def lit_def)
  then show ?thesis
    using assms
    by (auto simp: load_or_create_host_key_def withS_def hk_generate_def hk_from_seed_def save_host_key_def fs_write_def
        bindE_def ignore_def ret_def split: option.splits sum.splits prod.splits)
qed

text \<open>Claim C37. After a start that loaded or created the host key, the next start loads the same key
  from the file and changes nothing, and a start that finds a file never writes to it.\<close>

theorem host_key_persists:
  assumes "load_or_create_host_key C Fs path d = (Inr k, d')" and "\<not> o_stat_fails Fs path"
    and "o_read_err Fs path = None"
  shows "load_or_create_host_key C' Fs path d' = (Inr k, d') \<and> (path_exists Fs path d \<longrightarrow> d' = d)"
proof (cases "path_exists Fs path d")
  case True
  with assms(1) have load: "load_host_key Fs path d = (Inr k, d')" by (simp add: load_or_create_host_key_def withS_def)
  then have "d' = d"
    by (auto simp: load_host_key_def read_to_string_def withS_def bindE_def tryR_def fail_def
        split: option.splits sum.splits prod.splits)
  with load True show ?thesis by (simp add: load_or_create_host_key_def withS_def)
next
  case False
  note made = create_host_key [OF False assms(1)]
  then have "path_exists Fs path d'" using assms(2) by (simp add: path_exists_def)
  with load_saved [of d' path k Fs] made assms(3) False show ?thesis
    by (simp add: load_or_create_host_key_def withS_def)
qed

definition demo_os :: os where
  "demo_os = \<lparr>o_stat_fails = (\<lambda>_. False), o_read_err = (\<lambda>_. None), o_write_err = (\<lambda>_. None),
     o_missing = (OtherKind, []), o_not_utf8 = (OtherKind, [])\<rparr>"

theorem host_key_persists_witness:
  "\<exists>k d. load_or_create_host_key demo_crypto demo_os [107] \<lparr>files = (\<lambda>_. None), d_rng = 0\<rparr> = (Inr k, d) \<and>
     load_or_create_host_key demo_crypto demo_os [107] d = (Inr k, d)"
proof -
  obtain k d where run: "load_or_create_host_key demo_crypto demo_os [107] \<lparr>files = (\<lambda>_. None), d_rng = 0\<rparr> = (Inr k, d)"
    by (simp add: load_or_create_host_key_def withS_def path_exists_def demo_os_def hk_generate_def save_host_key_def
        fs_write_def bindE_def ignore_def ret_def)
  moreover have "\<not> o_stat_fails demo_os [107]" "o_read_err demo_os [107] = None" by (simp_all add: demo_os_def)
  ultimately show ?thesis using host_key_persists [OF run, of demo_crypto] by blast
qed

text \<open>Which logins the daemon accepts, by its arguments.\<close>

lemma user_of_arg_plain: "0x3A \<notin> set s \<Longrightarrow> user_of_arg s = \<lparr>u_name = s, u_password = []\<rparr>"
proof -
  assume "0x3A \<notin> set s"
  then have "split_once 0x3A s = None"
    using split_once_Some [of "0x3A" s] by (cases "split_once 0x3A s") (auto, metis in_set_conv_decomp)
  then show ?thesis by (simp add: user_of_arg_def)
qed

lemma user_of_arg_cases:
  "user_of_arg s = \<lparr>u_name = n, u_password = p\<rparr> \<longleftrightarrow> 0x3A \<notin> set n \<and> (s = n @ 0x3A # p \<or> s = n \<and> p = [])"
proof (cases "0x3A \<in> set s")
  case True
  then obtain a b where s: "s = a @ 0x3A # b" "0x3A \<notin> set a" by (meson split_list_first)
  with user_of_arg_colon [OF s(2), of b] split_once_Some [of "0x3A" s a b] split_once_Some [of "0x3A" s n p] show ?thesis
    by auto
next
  case False
  with user_of_arg_plain [OF False] show ?thesis by auto
qed

text \<open>Claim C38. The logins the daemon accepts are those of its --user arguments, split at the first
  colon, or proxy with password proxy when there is none.\<close>

theorem daemon_logins:
  assumes "ct_law C" and "main_config C Fs a d = (Inr cfg, d')"
  shows "check_password C cfg n p \<longleftrightarrow>
    (if a_user a = [] then n = lit ''proxy'' \<and> p = lit ''proxy''
     else 0x3A \<notin> set n \<and> (n @ 0x3A # p \<in> set (a_user a) \<or> p = [] \<and> n \<in> set (a_user a)))"
proof -
  have users: "sc_users cfg = users_of_args (a_user a)"
    using assms(2)
    by (auto simp: main_config_def Let_def bindE_def ret_def server_config_new_def split: prod.splits sum.splits)
  have member: "(\<exists>u \<in> U. u_name u = n \<and> u_password u = p) \<longleftrightarrow> \<lparr>u_name = n, u_password = p\<rparr> \<in> U" for U :: "user set"
    by (metis user.select_convs(1) user.select_convs(2) user.surjective old.unit.exhaust)
  have "check_password C cfg n p \<longleftrightarrow> \<lparr>u_name = n, u_password = p\<rparr> \<in> set (users_of_args (a_user a))"
    using check_users_iff [OF assms(1)] users by (simp add: check_password_def member)
  also have "\<dots> \<longleftrightarrow> (if a_user a = [] then n = lit ''proxy'' \<and> p = lit ''proxy''
      else (\<exists>s \<in> set (a_user a). user_of_arg s = \<lparr>u_name = n, u_password = p\<rparr>))"
    by (auto simp: users_of_args_def) (metis image_eqI)
  finally show ?thesis by (auto simp: user_of_arg_cases)
qed

theorem daemon_logins_witness:
  "\<exists>cfg d. main_config demo_crypto demo_os (args_default\<lparr>a_user := [[97, 0x3A, 98, 0x3A]]\<rparr>)
      \<lparr>files = (\<lambda>_. None), d_rng = 0\<rparr> = (Inr cfg, d) \<and>
     check_password demo_crypto cfg [97] [98, 0x3A] \<and> \<not> check_password demo_crypto cfg [97] [98]"
proof -
  obtain cfg d where run: "main_config demo_crypto demo_os (args_default\<lparr>a_user := [[97, 0x3A, 98, 0x3A]]\<rparr>)
      \<lparr>files = (\<lambda>_. None), d_rng = 0\<rparr> = (Inr cfg, d)"
    by (simp add: main_config_def Let_def expect_def load_or_create_host_key_def withS_def path_exists_def demo_os_def
        hk_generate_def save_host_key_def fs_write_def bindE_def ignore_def ret_def)
  have law: "ct_law demo_crypto" using demo_crypto_ok by blast
  show ?thesis using run daemon_logins [OF law run, of "[97]"] by simp
qed

end
