(* ===== verification/Spec2Isabelle.thy ===== *)
theory Spec2Isabelle
  imports Conn_Deliver Conn_Exchange Startup
begin

text \<open>
  A verification of \<^verbatim>\<open>ssproxyd\<close>, an SSH daemon that forwards TCP connections (\<^verbatim>\<open>src/src\<close>).

  \<^bold>\<open>The program.\<close> \<open>main\<close> assembles a configuration and \<open>serve\<close> accepts sockets, each of which gets a
  \<open>Session\<close> (\<^verbatim>\<open>server/session.rs\<close>): a future that moves bytes between the SSH socket, a \<open>Connection\<close>
  and the sockets of the destinations. The \<open>Connection\<close> (\<^verbatim>\<open>core/conn.rs\<close>) is the protocol without any
  input or output: bytes are fed into its read buffer, packets are opened (\<^verbatim>\<open>crypto/\<close>), parsed
  (\<^verbatim>\<open>wire.rs\<close>, \<^verbatim>\<open>proto/\<close>) and dispatched to the handlers of the key exchange, of authentication and of
  channels; what it has to say is sealed into an output queue, and what the session must know is put
  into an event queue. The channels stand in a table of slots (\<^verbatim>\<open>core/channel.rs\<close>).

  \<^bold>\<open>The model.\<close> One theory per part, each opening with a description of its own. Every function of the
  code is a definition of the same name, with a prefix where a name is used twice (\<open>p_\<close> for the
  parser, \<open>ct_\<close> for the channel table, \<open>ch_\<close> and \<open>conn_\<close> for channel and connection, \<open>dk_\<close> and \<open>hk_\<close> for
  direction and host keys, \<open>cc_\<close> and \<open>sc_\<close> for the fields of the configurations).

  \<^item> \<open>Prelude\<close>: bytes and words; \<open>error\<close>, with one more value \<open>Panic\<close>, and the partial operations that
    return it (\<open>unwrap\<close>, \<open>index\<close>, \<open>slice\<close>, \<open>split_at\<close>, \<open>pop_front\<close>); actions \<open>'s \<Rightarrow> error + 'a \<times> 's\<close> with
    \<open>bindE\<close> for the question mark operator, so that an early return keeps the changes made before it;
    the locale \<open>act_preorder\<close> of relations kept by actions, and the rules for actions that never panic.
  \<^item> \<open>Wire\<close> (\<^verbatim>\<open>wire.rs\<close>): writers, the parser as a cursor, UTF-8. The locale \<open>wire_codec\<close> states that a
    reader inverts a writer; it is interpreted for every pair.
  \<^item> \<open>Proto\<close> (\<^verbatim>\<open>proto/\<close>): message numbers, KEXINIT, negotiation.
  \<^item> \<open>Crypto_Lib\<close>, \<open>Chacha\<close>, \<open>Aes_Gcm\<close>, \<open>Kdf\<close>, \<open>Cipher_Suite\<close> (\<^verbatim>\<open>crypto/\<close>): the primitive algorithms are
    the fields of the parameter \<open>crypto\<close>, with the laws the code relies on as named predicates
    (\<open>crypto_ok\<close>); \<open>demo_crypto\<close> satisfies them. The packet formats, nonces, padding and key derivation are
    the program's. The locale \<open>record_cipher\<close> is interpreted for both ciphers and for the choice between them.
  \<^item> \<open>Config\<close> (\<^verbatim>\<open>config.rs\<close>, part of \<^verbatim>\<open>main.rs\<close>): settings, password check, the host key file format.
  \<^item> \<open>Channel\<close> (\<^verbatim>\<open>core/channel.rs\<close>): a channel with its windows and queues, and the table; the locale
    \<open>id_table\<close> specifies it as a bounded map, and its interpretation is the refinement.
  \<^item> \<open>Conn_State\<close>, \<open>Conn_Channel\<close>, \<open>Conn_Kex\<close>, \<open>Conn_Auth\<close>, \<open>Conn_Step\<close> (\<^verbatim>\<open>core/conn.rs\<close>): the state and output
    queue, the channel calls and messages, the key exchange, authentication, and opening and
    dispatching a packet. \<open>process_in\<close> is in \<open>Conn_Run\<close>, whose termination needs what a packet does.
  \<^item> \<open>Session\<close> (\<^verbatim>\<open>server/session.rs\<close>): the adapter, over the parameter \<open>net\<close> for the answers of sockets,
    connects, the clock and the iteration of a hash map.
  \<^item> \<open>Startup\<close> (rest of \<^verbatim>\<open>config.rs\<close>, \<^verbatim>\<open>main.rs\<close>, \<^verbatim>\<open>server/mod.rs\<close>, \<^verbatim>\<open>error.rs\<close>): the host key file, the
    configuration of the daemon, the accept loop, error texts.

  \<^bold>\<open>What is shown.\<close>

  \<^item> \<open>Conn_Inv\<close> and \<open>Conn_Run\<close>: the locales \<open>chan_steps\<close>, \<open>conn_steps\<close>, \<open>conn_steps_auth\<close> and \<open>call_steps\<close> prove
    once that a preorder closed under the elementary updates is kept by every operation, and by
    every call of an adapter. Their interpretations give the frame, the invariant of reachable
    connections (accounting of the output, well-formed channels, at most the configured number), what
    only ever grows, and the gate: no channel before authentication.
    When \<open>process_in\<close> returns, no complete packet is left in the read buffer.
  \<^item> \<open>Conn_Panic\<close>: in a reachable state none of the panic sites listed below is reached, by \<open>process_in\<close> on
    any input or by a call of the adapter.
  \<^item> \<open>Conn_Deliver\<close>: a packet sealed by one end is opened by the other; channel data arrives; data that
    waits is flushed in order until window or output limit end it. \<open>Conn_Agree\<close> and \<open>Conn_Exchange\<close>: the
    proposals of the program suit each other, and the packets of the exchange, opened by the other
    end, leave both ends in step under the new keys.
  \<^item> \<open>Conn_Secure\<close>: apart from a USERAUTH_SUCCESS message, which the code takes in either role, only a
    password request with the name and password of a configured user authenticates; while a key
    exchange blocks the application, channel data, EOF, CLOSE and window adjustments are held back
    (answers to an open request, to a channel or global request and to a ping are not); the send
    window is respected; strict key exchange refuses other messages.
  \<^item> \<open>Session_Run\<close>: a session never panics and has no destination before authentication; what it writes to
    the SSH socket is the front of the output, in order; what a destination takes is what leaves the
    inbound queue of its channel, as long as the destination is not given up; what is read from a
    destination is accepted whole by \<open>send_data\<close>. Its poll returns when the environment goes idle; and
    an environment in which it does not. That a connection keeps the order of outbound data and sends
    all of it is not shown, since it does not: data parked when EOF is sent stays behind, and a chunk
    sent while window is available overtakes older data that waits.
  \<^item> \<open>Startup\<close>: the host key survives a restart; which logins the arguments allow.

  \<^bold>\<open>Loops and fuel.\<close> Every loop of the code is a total function with a measure, except the loop of
  \<open>Session::poll\<close>, which may run as long as the environment makes progress: \<open>session_poll\<close> has fuel for the
  number of turns, and \<open>session_poll_returns\<close> shows how much is enough once the environment is idle.

  \<^bold>\<open>Bounds.\<close> Machine integers are words of their width where they can wrap (windows, packet and auth
  counters, channel ids, ports) and the wrap-around, saturation or absence of it is that of the
  code. Lengths of buffers are natural numbers: a \<open>usize\<close> does not overflow before memory ends. A time is
  a number of seconds; adding the connect timeout to it does not overflow.

  \<^bold>\<open>Panics.\<close> \<open>Panic\<close> stands for a failing \<open>unwrap\<close>, index or slice at these sites: the readers of the
  parser and \<open>rest\<close>; the slot of \<open>alloc\<close>; in the connection, every \<open>unwrap\<close> (configurations, the
  identification of the peer, the exchange state and hash, the peer's channel id, the front of a queue),
  the slices, splits and indices of \<open>try_one_packet\<close>, \<open>handle_payload\<close>, \<open>on_channel_data\<close>, \<open>send_data\<close>,
  \<open>enqueue_or_send\<close>, \<open>flush_pending\<close> and \<open>consume_inbound\<close>; and the slices of \<open>parse_host_key\<close>, which do panic at
  a multi-byte character. \<open>let _ =\<close> drops an error and keeps a panic. The
  remaining slices are total operations on lists, their bounds being evident from the statement
  itself or from a length check of the same function: \<open>consume_out\<close> splits at a minimum with the
  length, \<open>try_ident\<close> at a position it has found, the handlers of the exchange copy values whose length
  they test, \<open>queue_msg\<close> fills a buffer it has just sized, the ciphers and the key derivation cut
  buffers of fixed or checked length, \<open>b64\<close> and \<open>encode_mpint\<close> index below a length they test, and the session
  slices its buffers at the count a read reported. \<open>maybe_start_kex\<close> and the constructors drop the result
  of \<open>start_kex\<close>, which is shown not to panic. Arithmetic is that of a release build: a counter such as
  \<open>auth_fails\<close> wraps where a debug build would panic.

  \<^bold>\<open>Not modelled.\<close> Log output; TCP options (\<open>set_nodelay\<close>, \<open>tcp_quickack\<close>); \<open>poll_flush\<close>, which does nothing on
  a TCP socket; wakers, so that a pending poll is polled again is not stated; the parsing of the
  command line, binding the listener and the interrupt handler; module declarations. The primitive
  algorithms, the sockets and the file system are parameters.
\<close>

end
